theory Spec2Isabelle
  imports Complex_Main
begin

section \<open>JavaScript values and objects\<close>

text \<open>
  A cell of a row is a JavaScript value. The values the program stores in rows are strings
  (CSV fields, edited cells), numbers (the default age \<open>0\<close>, seeded ages), \<open>undefined\<close>
  (a seed field that is missing) and \<open>null\<close> (a JSON null of the seed data). Numbers are
  the integers the program stores (the default age, seeded ages, indices, time stamps);
  what a string converts to is a number of its own type, below. Strings are lists of
  characters read as code units below 256 (the Latin-1 range).
\<close>

datatype jsval = Str string | Num int | Undefined | Null

text \<open>
  An object is the list of its own properties in insertion order (the order JavaScript
  keeps for keys that are not array indices). A well-formed object has no key twice.
\<close>

type_synonym obj = "(string \<times> jsval) list"

definition wf_obj :: "obj \<Rightarrow> bool" where
  "wf_obj r = distinct (map fst r)"

text \<open>\<open>r[k]\<close>: the value of the property, \<open>undefined\<close> when the object has no such key.\<close>

definition get :: "obj \<Rightarrow> string \<Rightarrow> jsval" where
  "get r k = (case map_of r k of None \<Rightarrow> Undefined | Some v \<Rightarrow> v)"

text \<open>\<open>r[k] = v\<close>: an existing property keeps its position, a new one is appended.\<close>

fun setProp :: "string \<Rightarrow> jsval \<Rightarrow> obj \<Rightarrow> obj" where
  "setProp k v [] = [(k, v)]"
| "setProp k v (p # ps) = (if fst p = k then (k, v) # ps else p # setProp k v ps)"

text \<open>The object spread \<open>{...tgt, ...r}\<close>: every property of \<open>r\<close> is set on the target, in order.\<close>

definition spread :: "obj \<Rightarrow> obj \<Rightarrow> obj" where
  "spread tgt r = fold (\<lambda>(k, v). setProp k v) r tgt"

text \<open>Truthiness, and \<open>a || b\<close>.\<close>

fun truthy :: "jsval \<Rightarrow> bool" where
  "truthy (Str s) = (s \<noteq> [])"
| "truthy (Num n) = (n \<noteq> 0)"
| "truthy Undefined = False"
| "truthy Null = False"

definition js_or :: "jsval \<Rightarrow> jsval \<Rightarrow> jsval" where
  "js_or a b = (if truthy a then a else b)"

text \<open>\<open>v == null\<close> holds of \<open>undefined\<close> and of \<open>null\<close>.\<close>

fun eq_null :: "jsval \<Rightarrow> bool" where
  "eq_null Undefined = True"
| "eq_null Null = True"
| "eq_null _ = False"

section \<open>Strings and numbers\<close>

text \<open>
  The decimal numeral of a number, as a template literal or \<open>String(n)\<close> writes it
  (JavaScript switches to exponent notation from \<open>10^21\<close> on, which the model does not).
\<close>

definition digitChar :: "nat \<Rightarrow> char" where
  "digitChar d = ''0123456789'' ! d"

fun natToString :: "nat \<Rightarrow> string" where
  "natToString n = (if n < 10 then [digitChar n] else natToString (n div 10) @ [digitChar (n mod 10)])"

declare natToString.simps [simp del]

definition intToString :: "int \<Rightarrow> string" where
  "intToString i = (if i < 0 then CHR ''-'' # natToString (nat (- i)) else natToString (nat i))"

text \<open>\<open>String(v)\<close>.\<close>

fun jsString :: "jsval \<Rightarrow> string" where
  "jsString (Str s) = s"
| "jsString (Num n) = intToString n"
| "jsString Undefined = ''undefined''"
| "jsString Null = ''null''"

text \<open>
  A character is a code unit below 256, so a string is text of the Latin-1 range.
  \<open>s.toLowerCase()\<close> on such text adds 32 to the code of the letters \<open>A\<close> to \<open>Z\<close> and of the
  letters from U+00C0 to U+00DE (the multiplication sign U+00D7 is no letter) and keeps
  every other character.
\<close>

definition lowerChar :: "char \<Rightarrow> char" where
  "lowerChar c =
     (let n = (of_char c :: nat)
      in if (65 \<le> n \<and> n \<le> 90) \<or> (192 \<le> n \<and> n \<le> 222 \<and> n \<noteq> 215)
         then char_of (n + 32) else c)"

definition toLowerCase :: "string \<Rightarrow> string" where
  "toLowerCase s = map lowerChar s"

text \<open>
  \<open>s.trim()\<close> strips white space and line terminators from both ends: below 256 these are
  tab, line feed, vertical tab, form feed, carriage return, space and the no-break space
  U+00A0.
\<close>

definition isWhiteSpace :: "char \<Rightarrow> bool" where
  "isWhiteSpace c = ((of_char c :: nat) \<in> {9, 10, 11, 12, 13, 32, 160})"

definition trim :: "string \<Rightarrow> string" where
  "trim s = rev (dropWhile isWhiteSpace (rev (dropWhile isWhiteSpace s)))"

text \<open>\<open>s.includes(q)\<close>: \<open>q\<close> occurs in \<open>s\<close> at some position.\<close>

fun startsWith :: "string \<Rightarrow> string \<Rightarrow> bool" where
  "startsWith s [] = True"
| "startsWith [] (q # qs) = False"
| "startsWith (c # cs) (q # qs) = (c = q \<and> startsWith cs qs)"

fun includesStr :: "string \<Rightarrow> string \<Rightarrow> bool" where
  "includesStr [] q = (q = [])"
| "includesStr (c # cs) q = (startsWith (c # cs) q \<or> includesStr cs q)"

text \<open>The number a string of decimal digits denotes.\<close>

definition digitsToNat :: "string \<Rightarrow> nat" where
  "digitsToNat s = foldl (\<lambda>acc c. 10 * acc + (of_char c - 48)) 0 s"

section \<open>Numbers and the conversion of strings to numbers\<close>

text \<open>
  A number as a comparison sees it: a finite value (every finite double is a rational),
  an infinity or \<open>NaN\<close>.
\<close>

datatype jsnumber = Finite rat | PosInfinity | NegInfinity | NaN

text \<open>\<open>x > y\<close> on numbers: false when either side is \<open>NaN\<close>.\<close>

fun numGreater :: "jsnumber \<Rightarrow> jsnumber \<Rightarrow> bool" where
  "numGreater (Finite x) (Finite y) = (y < x)"
| "numGreater (Finite x) NegInfinity = True"
| "numGreater PosInfinity (Finite y) = True"
| "numGreater PosInfinity NegInfinity = True"
| "numGreater _ _ = False"

text \<open>
  Rounding the rational \<open>p / q\<close> (\<open>p \<ge> 0\<close>, \<open>q > 0\<close>) to the nearest double, ties to even.
  \<open>binaryExponent\<close> is the exponent \<open>e\<close> with \<open>2^e \<le> p / q < 2^(e+1)\<close>, not below \<open>-1022\<close>
  (subnormal range) and cut at \<open>1024\<close> (overflow); the doubles at that exponent are the
  multiples of \<open>2^(e - 52)\<close>, and a result of \<open>2^1024\<close> or more is infinity.
\<close>

function binUp :: "int \<Rightarrow> int \<Rightarrow> nat \<Rightarrow> nat" where
  "binUp p q e = (if e < 1024 \<and> q * 2 ^ (e + 1) \<le> p then binUp p q (e + 1) else e)"
  by pat_completeness auto
termination
  by (relation "measure (\<lambda>(p, q, e). 1024 - e)") auto

function binDown :: "int \<Rightarrow> int \<Rightarrow> nat \<Rightarrow> nat" where
  "binDown p q k = (if k < 1022 \<and> p * 2 ^ k < q then binDown p q (k + 1) else k)"
  by pat_completeness auto
termination
  by (relation "measure (\<lambda>(p, q, k). 1022 - k)") auto

declare binUp.simps [simp del] binDown.simps [simp del]

definition binaryExponent :: "int \<Rightarrow> int \<Rightarrow> int" where
  "binaryExponent p q = (if q \<le> p then int (binUp p q 0) else - int (binDown p q 1))"

definition roundHalfEven :: "int \<Rightarrow> int \<Rightarrow> int" where
  "roundHalfEven num den =
     (let d = num div den; r = num mod den
      in if 2 * r < den then d else if den < 2 * r then d + 1 else if even d then d else d + 1)"

definition roundToDouble :: "int \<Rightarrow> int \<Rightarrow> jsnumber" where
  "roundToDouble p q =
     (if p = 0 then Finite 0
      else
        (let u = binaryExponent p q - 52;
             v = (if u < 0
                  then of_int (roundHalfEven (p * 2 ^ nat (- u)) q) / 2 ^ nat (- u)
                  else of_int (roundHalfEven p (q * 2 ^ nat u)) * 2 ^ nat u)
         in if 2 ^ 1024 \<le> v then PosInfinity else Finite v))"

text \<open>
  \<open>StringToNumber\<close>: white space is trimmed; the empty string is \<open>0\<close>; a hexadecimal, octal
  or binary literal (\<open>0x\<close>, \<open>0o\<close>, \<open>0b\<close>, unsigned) has its integer value; otherwise an optional
  sign is followed by \<open>Infinity\<close> or by a decimal literal (digits, an optional fraction, an
  optional exponent; one of the integer and fraction parts may be empty); everything else
  is \<open>NaN\<close>. \<open>decimalLiteral\<close> returns the digits as an integer \<open>m\<close> and the decimal exponent
  \<open>ex\<close>, the value being \<open>m * 10^ex\<close>.
\<close>

definition isDigit :: "char \<Rightarrow> bool" where
  "isDigit c = (48 \<le> (of_char c :: nat) \<and> (of_char c :: nat) \<le> 57)"

definition digitsToInt :: "string \<Rightarrow> int" where
  "digitsToInt s = foldl (\<lambda>acc c. 10 * acc + (of_char c - 48)) 0 s"

definition radixDigit :: "char \<Rightarrow> int option" where
  "radixDigit c =
     (let n = (of_char c :: int)
      in if 48 \<le> n \<and> n \<le> 57 then Some (n - 48)
         else if 97 \<le> n \<and> n \<le> 102 then Some (n - 87)
         else if 65 \<le> n \<and> n \<le> 70 then Some (n - 55)
         else None)"

definition radixToInt :: "int \<Rightarrow> string \<Rightarrow> int option" where
  "radixToInt base s =
     (if s \<noteq> [] \<and> list_all (\<lambda>c. case radixDigit c of None \<Rightarrow> False | Some d \<Rightarrow> d < base) s
      then Some (foldl (\<lambda>acc c. base * acc + the (radixDigit c)) 0 s)
      else None)"

definition nonDecimalLiteral :: "string \<Rightarrow> int option" where
  "nonDecimalLiteral t =
     (case t of
        c0 # c1 # ds \<Rightarrow>
          if c0 \<noteq> CHR ''0'' then None
          else if c1 = CHR ''x'' \<or> c1 = CHR ''X'' then radixToInt 16 ds
          else if c1 = CHR ''o'' \<or> c1 = CHR ''O'' then radixToInt 8 ds
          else if c1 = CHR ''b'' \<or> c1 = CHR ''B'' then radixToInt 2 ds
          else None
      | _ \<Rightarrow> None)"

definition signedDigits :: "string \<Rightarrow> int option" where
  "signedDigits s =
     (case s of
        [] \<Rightarrow> None
      | c # cs \<Rightarrow>
          if c = CHR ''-'' then (if cs \<noteq> [] \<and> list_all isDigit cs then Some (- digitsToInt cs) else None)
          else if c = CHR ''+'' then (if cs \<noteq> [] \<and> list_all isDigit cs then Some (digitsToInt cs) else None)
          else if list_all isDigit s then Some (digitsToInt s) else None)"

definition decimalLiteral :: "string \<Rightarrow> (int \<times> int) option" where
  "decimalLiteral u =
     (let ip = takeWhile isDigit u;
          r1 = dropWhile isDigit u;
          dot = (r1 \<noteq> [] \<and> hd r1 = CHR ''.'');
          fp = (if dot then takeWhile isDigit (tl r1) else []);
          r2 = (if dot then dropWhile isDigit (tl r1) else r1)
      in if ip = [] \<and> fp = [] then None
         else
           (case r2 of
              [] \<Rightarrow> Some (digitsToInt (ip @ fp), - int (length fp))
            | c # cs \<Rightarrow>
                if c = CHR ''e'' \<or> c = CHR ''E''
                then (case signedDigits cs of
                        None \<Rightarrow> None
                      | Some ex \<Rightarrow> Some (digitsToInt (ip @ fp), ex - int (length fp)))
                else None))"

definition negateIf :: "bool \<Rightarrow> jsnumber \<Rightarrow> jsnumber" where
  "negateIf neg x =
     (if neg then (case x of Finite v \<Rightarrow> Finite (- v) | PosInfinity \<Rightarrow> NegInfinity
                   | NegInfinity \<Rightarrow> PosInfinity | NaN \<Rightarrow> NaN)
      else x)"

definition unsignedDecimal :: "string \<Rightarrow> jsnumber" where
  "unsignedDecimal u =
     (if u = ''Infinity'' then PosInfinity
      else
        (case decimalLiteral u of
           None \<Rightarrow> NaN
         | Some (m, ex) \<Rightarrow>
             if 0 \<le> ex then roundToDouble (m * 10 ^ nat ex) 1 else roundToDouble m (10 ^ nat (- ex))))"

definition StringToNumber :: "string \<Rightarrow> jsnumber" where
  "StringToNumber s =
     (let t = trim s
      in if t = [] then Finite 0
         else
           (case nonDecimalLiteral t of
              Some n \<Rightarrow> roundToDouble n 1
            | None \<Rightarrow>
                if hd t = CHR ''-'' then negateIf True (unsignedDecimal (tl t))
                else if hd t = CHR ''+'' then unsignedDecimal (tl t)
                else unsignedDecimal t))"

section \<open>The store (src/store)\<close>

record columnDef =
  key :: string
  label :: string
  visible :: bool

text \<open>
  What \<open>localStorage\<close> holds under a key: the JSON document of a row list or of a column
  list. \<open>JSON.stringify\<close> leaves out the properties whose value is \<open>undefined\<close>.
\<close>

datatype persisted = PRows "obj list" | PColumns "columnDef list"

definition stringifyRows :: "obj list \<Rightarrow> persisted" where
  "stringifyRows rs = PRows (map (filter (\<lambda>(k, v). v \<noteq> Undefined)) rs)"

definition stringifyColumns :: "columnDef list \<Rightarrow> persisted" where
  "stringifyColumns cs = PColumns cs"

text \<open>
  The state the reducers work on: the rows of the data slice, the columns of the column
  slice, and \<open>localStorage\<close>. A reducer is a function from the state and the action's
  payload to the next state.
\<close>

record appState =
  rows :: "obj list"
  columns :: "columnDef list"
  localStorage :: "string \<rightharpoonup> persisted"

definition persistRows :: "appState \<Rightarrow> appState" where
  "persistRows st = st\<lparr>localStorage := (localStorage st)(''table_rows'' \<mapsto> stringifyRows (rows st))\<rparr>"

definition persistColumns :: "appState \<Rightarrow> appState" where
  "persistColumns st =
     st\<lparr>localStorage := (localStorage st)(''table_columns'' \<mapsto> stringifyColumns (columns st))\<rparr>"

text \<open>\<open>xs.findIndex(p)\<close>: the first index whose element satisfies \<open>p\<close>, \<open>None\<close> for \<open>-1\<close>.\<close>

fun findIndex :: "('a \<Rightarrow> bool) \<Rightarrow> 'a list \<Rightarrow> nat option" where
  "findIndex p [] = None"
| "findIndex p (x # xs) = (if p x then Some 0 else map_option Suc (findIndex p xs))"

definition setRows :: "appState \<Rightarrow> obj list \<Rightarrow> appState" where
  "setRows st payload = persistRows (st\<lparr>rows := payload\<rparr>)"

definition updateRow :: "appState \<Rightarrow> obj \<Rightarrow> appState" where
  "updateRow st payload =
     persistRows
       (case findIndex (\<lambda>r. get r ''id'' = get payload ''id'') (rows st) of
          None \<Rightarrow> st
        | Some idx \<Rightarrow> st\<lparr>rows := (rows st)[idx := payload]\<rparr>)"

definition deleteRow :: "appState \<Rightarrow> string \<Rightarrow> appState" where
  "deleteRow st payload =
     persistRows (st\<lparr>rows := filter (\<lambda>r. get r ''id'' \<noteq> Str payload) (rows st)\<rparr>)"

text \<open>
  \<open>toggleColumn\<close>: \<open>columns.find\<close> returns the first column with the key, and its
  \<open>visible\<close> flag is flipped in place.
\<close>

definition toggleColumn :: "appState \<Rightarrow> string \<Rightarrow> appState" where
  "toggleColumn st payload =
     persistColumns
       (case findIndex (\<lambda>col. key col = payload) (columns st) of
          None \<Rightarrow> st
        | Some i \<Rightarrow>
            st\<lparr>columns := (columns st)[i := (columns st ! i)\<lparr>visible := \<not> visible (columns st ! i)\<rparr>]\<rparr>)"

definition addColumn :: "appState \<Rightarrow> columnDef \<Rightarrow> appState" where
  "addColumn st payload = persistColumns (st\<lparr>columns := columns st @ [payload]\<rparr>)"

definition setColumns :: "appState \<Rightarrow> columnDef list \<Rightarrow> appState" where
  "setColumns st payload = persistColumns (st\<lparr>columns := payload\<rparr>)"

definition sampleData :: "obj list" where
  "sampleData =
     [[(''id'', Str ''1''), (''name'', Str ''Alice''), (''email'', Str ''alice@example.com''),
       (''age'', Num 27), (''role'', Str ''Admin'')],
      [(''id'', Str ''2''), (''name'', Str ''John''), (''email'', Str ''john@example.com''),
       (''age'', Num 28), (''role'', Str ''IT'')],
      [(''id'', Str ''3''), (''name'', Str ''Doby''), (''email'', Str ''doby@example.com''),
       (''age'', Num 29), (''role'', Str ''Operations'')]]"

definition defaultColumns :: "columnDef list" where
  "defaultColumns =
     [\<lparr>key = ''name'', label = ''Name'', visible = True\<rparr>,
      \<lparr>key = ''email'', label = ''Email'', visible = True\<rparr>,
      \<lparr>key = ''age'', label = ''Age'', visible = True\<rparr>,
      \<lparr>key = ''role'', label = ''Role'', visible = True\<rparr>]"

text \<open>The state at start-up when \<open>localStorage\<close> is empty: \<open>loadState\<close> returns the fallbacks.\<close>

definition initialState :: appState where
  "initialState = \<lparr>rows = sampleData, columns = defaultColumns, localStorage = Map.empty\<rparr>"

section \<open>The view (src/App.tsx)\<close>

datatype sortDir = Asc | Desc

text \<open>\<open>a < b\<close> on two strings: the first code unit that differs decides, a proper prefix is smaller.\<close>

fun strLess :: "string \<Rightarrow> string \<Rightarrow> bool" where
  "strLess [] [] = False"
| "strLess [] (y # ys) = True"
| "strLess (x # xs) [] = False"
| "strLess (x # xs) (y # ys) =
     ((of_char x :: nat) < of_char y \<or> (x = y \<and> strLess xs ys))"

text \<open>
  \<open>ToNumber\<close> of a value. The conversion of a string is a parameter of the view, so that
  what is proved of the view holds for the language's own \<open>StringToNumber\<close>;
  \<open>StringToNumber\<close> above is the instance the examples use.
\<close>

fun toNumberJS :: "(string \<Rightarrow> jsnumber) \<Rightarrow> jsval \<Rightarrow> jsnumber" where
  "toNumberJS stringToNumber (Str s) = stringToNumber s"
| "toNumberJS stringToNumber (Num n) = Finite (of_int n)"
| "toNumberJS stringToNumber Undefined = NaN"
| "toNumberJS stringToNumber Null = Finite 0"

text \<open>
  \<open>a > b\<close>: two strings are compared as strings; otherwise both sides are converted to
  numbers, and the comparison is false when either is \<open>NaN\<close>.
\<close>

fun jsGreater :: "(string \<Rightarrow> jsnumber) \<Rightarrow> jsval \<Rightarrow> jsval \<Rightarrow> bool" where
  "jsGreater stringToNumber (Str x) (Str y) = strLess y x"
| "jsGreater stringToNumber a b = numGreater (toNumberJS stringToNumber a) (toNumberJS stringToNumber b)"

text \<open>The comparator passed to \<open>sort\<close> (App.tsx, lines 112 to 121).\<close>

definition compareRows :: "(string \<Rightarrow> jsnumber) \<Rightarrow> string \<Rightarrow> sortDir \<Rightarrow> obj \<Rightarrow> obj \<Rightarrow> int" where
  "compareRows stringToNumber sortKey sortDir a b =
     (let av = get a sortKey; bv = get b sortKey in
      if av = bv then 0
      else if eq_null av then (if sortDir = Asc then - 1 else 1)
      else if eq_null bv then (if sortDir = Asc then 1 else - 1)
      else (let res = (if jsGreater stringToNumber av bv then 1 else - 1 :: int)
            in if sortDir = Asc then res else - res))"

text \<open>
  \<open>Array.prototype.sort\<close> with a comparator is a stable sort: an element goes before the
  first element of the sorted rest that it does not compare greater than.
\<close>

fun insertBy :: "('a \<Rightarrow> 'a \<Rightarrow> int) \<Rightarrow> 'a \<Rightarrow> 'a list \<Rightarrow> 'a list" where
  "insertBy cmp x [] = [x]"
| "insertBy cmp x (y # ys) = (if cmp x y \<le> 0 then x # y # ys else y # insertBy cmp x ys)"

definition sortBy :: "('a \<Rightarrow> 'a \<Rightarrow> int) \<Rightarrow> 'a list \<Rightarrow> 'a list" where
  "sortBy cmp xs = foldr (insertBy cmp) xs []"

text \<open>The filter stage: \<open>rows.filter(...)\<close> of lines 107 to 110, with \<open>q\<close> of line 106.\<close>

definition searchRows :: "obj list \<Rightarrow> string \<Rightarrow> obj list" where
  "searchRows rs search =
     (let q = toLowerCase (trim search)
      in filter (\<lambda>r. q = [] \<or> list_ex (\<lambda>v. includesStr (toLowerCase (jsString v)) q) (map snd r)) rs)"

text \<open>\<open>filtered\<close>: \<open>sortKey\<close> is \<open>null\<close> (\<open>None\<close>) or a string, and the empty string is falsy.\<close>

definition filtered ::
  "(string \<Rightarrow> jsnumber) \<Rightarrow> obj list \<Rightarrow> string \<Rightarrow> string option \<Rightarrow> sortDir \<Rightarrow> obj list" where
  "filtered stringToNumber rs search sortKey sortDir =
     (let data = searchRows rs search
      in case sortKey of
           None \<Rightarrow> data
         | Some k \<Rightarrow> if k \<noteq> [] then sortBy (compareRows stringToNumber k sortDir) data else data)"

text \<open>\<open>xs.slice(start, end)\<close> for indices that are not negative.\<close>

definition slice :: "'a list \<Rightarrow> nat \<Rightarrow> nat \<Rightarrow> 'a list" where
  "slice xs start end = take (end - start) (drop start xs)"

definition paginated :: "obj list \<Rightarrow> nat \<Rightarrow> nat \<Rightarrow> obj list" where
  "paginated flt page rowsPerPage = slice flt (page * rowsPerPage) ((page + 1) * rowsPerPage)"

text \<open>The \<open>count\<close> handed to \<open>TablePagination\<close>: \<open>filtered.length\<close>.\<close>

definition paginationCount :: "obj list \<Rightarrow> nat" where
  "paginationCount flt = length flt"



section \<open>CSV import and export (src/utils/csv)\<close>

definition quoteChar :: char where "quoteChar = CHR 0x22"
definition LF :: char where "LF = CHR 0x0A"
definition CR :: char where "CR = CHR 0x0D"

subsection \<open>The CSV library\<close>

text \<open>
  Modelled from the spec: \<open>Papa.parse\<close> and \<open>Papa.unparse\<close>, functions of the library
  papaparse, which is not part of the repository. The specification describes a codec
  for comma-separated text with a header line: a field that contains the delimiter, a
  quote character or a line break is wrapped in quotes with its quotes doubled; the first
  line is the header, the other lines are data rows mapped to the header by position, and
  empty lines are skipped.

  The scanner reads the text into records of fields. A line ends at a line feed, at a
  carriage return, or at a carriage return followed by a line feed.
\<close>

datatype mode = FieldStart | InField | InQuotes

fun addChar :: "char \<Rightarrow> string list list \<Rightarrow> string list list" where
  "addChar c [] = [[[c]]]"
| "addChar c ([] # rs) = [[c]] # rs"
| "addChar c ((f # fs) # rs) = ((c # f) # fs) # rs"

fun newField :: "string list list \<Rightarrow> string list list" where
  "newField [] = [[[], []]]"
| "newField (fs # rs) = ([] # fs) # rs"

definition newRecord :: "string list list \<Rightarrow> string list list" where
  "newRecord rs = [[]] # rs"

fun scan :: "mode \<Rightarrow> string \<Rightarrow> string list list" where
  "scan m [] = [[[]]]"
| "scan m (c # cs) =
     (if m = InQuotes then
        (if c = quoteChar then
           (case cs of
              [] \<Rightarrow> scan InField []
            | d # ds \<Rightarrow>
                if d = quoteChar then addChar quoteChar (scan InQuotes ds) else scan InField (d # ds))
         else addChar c (scan InQuotes cs))
      else if c = quoteChar \<and> m = FieldStart then scan InQuotes cs
      else if c = CHR '','' then newField (scan FieldStart cs)
      else if c = LF then newRecord (scan FieldStart cs)
      else if c = CR then
        (case cs of
           [] \<Rightarrow> newRecord (scan FieldStart [])
         | d # ds \<Rightarrow>
             if d = LF then newRecord (scan FieldStart ds) else newRecord (scan FieldStart (d # ds)))
      else addChar c (scan InField cs))"

text \<open>An empty line is a record of one empty field (\<open>skipEmptyLines: true\<close>).\<close>

definition isEmptyLine :: "string list \<Rightarrow> bool" where
  "isEmptyLine fs = (fs = [[]])"

text \<open>
  A data row becomes an object: the header's keys with the fields at the same positions
  (\<open>header: true\<close>). A row shorter than the header lacks the last keys; fields beyond
  the header are left out.
\<close>

definition rowObject :: "string list \<Rightarrow> string list \<Rightarrow> obj" where
  "rowObject header fs = fold (\<lambda>(k, v). setProp k (Str v)) (zip header fs) []"

definition Papa_parse :: "string \<Rightarrow> obj list" where
  "Papa_parse text =
     (case filter (\<lambda>fs. \<not> isEmptyLine fs) (scan FieldStart text) of
        [] \<Rightarrow> []
      | header # recs \<Rightarrow> map (rowObject header) recs)"







subsection \<open>\<open>parseCSV\<close> and \<open>exportCSV\<close>\<close>

text \<open>
  The object built for the raw row \<open>r\<close> at index \<open>i\<close> (lines 14 to 21): five properties
  with their fall-backs, then the spread of \<open>r\<close>. \<open>now i\<close> is what \<open>Date.now()\<close> returns
  while row \<open>i\<close> is built.
\<close>

definition parseRow :: "(nat \<Rightarrow> nat) \<Rightarrow> nat \<Rightarrow> obj \<Rightarrow> obj" where
  "parseRow now i r =
     spread
       [(''id'', js_or (get r ''id'') (Str (natToString (now i) @ ''-'' @ natToString i))),
        (''name'', js_or (get r ''name'') (Str [])),
        (''email'', js_or (get r ''email'') (Str [])),
        (''age'', js_or (get r ''age'') (Num 0)),
        (''role'', js_or (get r ''role'') (Str ''Viewer''))]
       r"

text \<open>The fall-backs of lines 15 to 19, used when the raw row has no truthy value.\<close>

definition rowDefaults :: "(nat \<Rightarrow> nat) \<Rightarrow> nat \<Rightarrow> obj" where
  "rowDefaults now i =
     [(''id'', Str (natToString (now i) @ ''-'' @ natToString i)), (''name'', Str []),
      (''email'', Str []), (''age'', Num 0), (''role'', Str ''Viewer'')]"

definition rowErrorMessage :: "nat \<Rightarrow> string" where
  "rowErrorMessage i = ''Row '' @ natToString (i + 1) @ '':missing name or email''"

record parseResult =
  data :: "obj list"
  errors :: "string list"

text \<open>
  The loop of \<open>res.data.map\<close> (lines 10 to 22), from index \<open>i\<close> on: it pushes an error for a
  row without a truthy \<open>name\<close> or \<open>email\<close> and builds the row all the same.
\<close>

fun parseLoop :: "(nat \<Rightarrow> nat) \<Rightarrow> nat \<Rightarrow> obj list \<Rightarrow> string list \<Rightarrow> obj list \<times> string list" where
  "parseLoop now i [] errs = ([], errs)"
| "parseLoop now i (r # rs) errs =
     (let errs' = (if \<not> truthy (get r ''name'') \<or> \<not> truthy (get r ''email'')
                   then errs @ [rowErrorMessage i] else errs);
          (parsed, errs'') = parseLoop now (Suc i) rs errs'
      in (parseRow now i r # parsed, errs''))"

definition parseData :: "(nat \<Rightarrow> nat) \<Rightarrow> obj list \<Rightarrow> parseResult" where
  "parseData now res_data =
     (let (parsed, errs) = parseLoop now 0 res_data [] in \<lparr>data = parsed, errors = errs\<rparr>)"

definition parseCSV :: "(nat \<Rightarrow> nat) \<Rightarrow> string \<Rightarrow> parseResult" where
  "parseCSV now text = parseData now (Papa_parse text)"

text \<open>\<open>exportCSV\<close>: each row is projected to the visible keys, in their order; the result is
  the text of the blob.\<close>

definition projectRow :: "string list \<Rightarrow> obj \<Rightarrow> obj" where
  "projectRow visibleKeys r = fold (\<lambda>item out. setProp item (get r item) out) visibleKeys []"


section \<open>Seed data and reachable states\<close>

subsection \<open>The seed data (App.tsx, lines 85 to 95)\<close>

text \<open>
  A record of the remote list, with the fields the mapping reads; \<open>u_company_name\<close> is
  \<open>u.company?.name\<close> and \<open>u_address_city\<close> is \<open>u.address?.city\<close>. \<open>random i\<close> is the value of
  \<open>Math.floor(Math.random() * 43)\<close> drawn for record \<open>i\<close>.
\<close>

record user =
  u_id :: jsval
  u_name :: jsval
  u_username :: jsval
  u_email :: jsval
  u_phone :: jsval
  u_website :: jsval
  u_company_name :: jsval
  u_address_city :: jsval

definition mapUser :: "(nat \<Rightarrow> int) \<Rightarrow> nat \<Rightarrow> user \<Rightarrow> obj" where
  "mapUser random i u =
     [(''id'', Str (jsString (u_id u))),
      (''name'', js_or (u_name u) (js_or (u_username u) (Str (''User '' @ natToString (i + 1))))),
      (''email'', js_or (u_email u) (Str (''user'' @ natToString (i + 1) @ ''@example.com''))),
      (''age'', Num (random i + 18)),
      (''role'', Str ''Viewer''),
      (''phone'', u_phone u),
      (''website'', u_website u),
      (''company'', u_company_name u),
      (''address'', Str (jsString (js_or (u_address_city u) (Str []))))]"

definition mapped :: "(nat \<Rightarrow> int) \<Rightarrow> user list \<Rightarrow> obj list" where
  "mapped random users = map (\<lambda>i. mapUser random i (users ! i)) [0 ..< length users]"

subsection \<open>Reachable states\<close>

text \<open>
  The states the application reaches from its start: rows are replaced by the result of a
  CSV import or by the mapped seed data, a row is updated, a row is deleted, and the
  column actions run in between.
\<close>

inductive reachable :: "appState \<Rightarrow> bool" where
  start: "reachable initialState"
| importCSV: "reachable st \<Longrightarrow> reachable (setRows st (data (parseCSV now text)))"
| seed: "reachable st \<Longrightarrow> reachable (setRows st (mapped random users))"
| update: "reachable st \<Longrightarrow> reachable (updateRow st payload)"
| delete: "reachable st \<Longrightarrow> reachable (deleteRow st i)"
| toggle: "reachable st \<Longrightarrow> reachable (toggleColumn st k)"
| add: "reachable st \<Longrightarrow> reachable (addColumn st c)"
| reorder: "reachable st \<Longrightarrow> reachable (setColumns st cs)"

definition rowIds :: "appState \<Rightarrow> jsval list" where
  "rowIds st = map (\<lambda>r. get r ''id'') (rows st)"


text \<open>An object all of whose values are strings, as the CSV library returns them.\<close>

definition stringValued :: "obj \<Rightarrow> bool" where
  "stringValued r = (\<forall>p \<in> set r. \<exists>s. snd p = Str s)"

section \<open>Notions for reading back what was written\<close>





section \<open>Example data\<close>

definition johnEdited :: obj where
  "johnEdited = [(''id'', Str ''2''), (''name'', Str ''Johnny''), (''email'', Str ''j@example.com'')]"

definition stranger :: obj where
  "stranger = [(''id'', Str ''9''), (''name'', Str ''Zed''), (''email'', Str ''z@example.com'')]"

definition twelveRows :: "obj list" where
  "twelveRows = map (\<lambda>n. [(''id'', Str (natToString n)), (''age'', Num (int n))]) [0 ..< 12]"



definition bobText :: string where
  "bobText = ''name,email'' @ [LF] @ '',bob@x.com'' @ [LF]"

definition emptyIdRows :: "obj list" where
  "emptyIdRows = [[(''id'', Str []), (''name'', Str ''Ann''), (''email'', Str ''ann@x.com'')]]"


definition duplicateIdText :: string where
  "duplicateIdText = ''id,name,email'' @ [LF] @ ''7,Ann,ann@x.com'' @ [LF] @ ''7,Bob,bob@x.com''"

definition noIdRows :: "obj list" where
  "noIdRows = [[(''name'', Str ''Ann''), (''email'', Str ''ann@x.com'')],
               [(''name'', Str ''Bob''), (''email'', Str ''bob@x.com'')]]"





definition cooperRows :: "obj list" where
  "cooperRows =
     [[(''id'', Str ''1''), (''name'', Str ''Alice''), (''email'', Str ''alice@example.com'')],
      [(''id'', Str ''2''), (''name'', Str ''Alice Cooper''), (''email'', Str ''ac@example.com'')]]"

definition accentRows :: "obj list" where
  "accentRows = [[(''id'', Str ''1''), (''name'', Str [CHR 0xE9])], [(''id'', Str ''2''), (''name'', Str ''e'')]]"

definition phoneRows :: "obj list" where
  "phoneRows = [[(''id'', Str ''1''), (''phone'', Undefined)], [(''id'', Str ''2''), (''phone'', Str ''555'')]]"

section \<open>Facts about \<open>findIndex\<close>\<close>

lemma findIndex_None: "findIndex p xs = None \<longleftrightarrow> (\<forall>x \<in> set xs. \<not> p x)"
  by (induction xs) auto

lemma findIndex_Some:
  "findIndex p xs = Some i \<Longrightarrow> i < length xs \<and> p (xs ! i) \<and> (\<forall>j < i. \<not> p (xs ! j))"
proof (induction xs arbitrary: i)
  case Nil
  then show ?case by simp
next
  case (Cons x xs)
  show ?case
  proof (cases "p x")
    case True
    with Cons.prems show ?thesis by simp
  next
    case False
    with Cons.prems obtain k where k: "findIndex p xs = Some k" "i = Suc k"
      by auto
    from Cons.IH [OF k(1)] False k(2) show ?thesis
      by (auto simp: nth_Cons split: nat.splits)
  qed
qed

lemma findIndex_first:
  "i < length xs \<Longrightarrow> p (xs ! i) \<Longrightarrow> \<forall>j < i. \<not> p (xs ! j) \<Longrightarrow> findIndex p xs = Some i"
proof (induction xs arbitrary: i)
  case Nil
  then show ?case by simp
next
  case (Cons x xs)
  show ?case
  proof (cases i)
    case 0
    with Cons.prems show ?thesis by simp
  next
    case (Suc k)
    from Cons.prems Suc have "\<not> p x" by auto
    moreover from Cons.prems Suc have "findIndex p xs = Some k"
      by (intro Cons.IH) auto
    ultimately show ?thesis using Suc by simp
  qed
qed

section \<open>The row store\<close>

lemma persistRows_simps:
  "rows (persistRows st) = rows st"
  "columns (persistRows st) = columns st"
  "localStorage (persistRows st) ''table_rows'' = Some (stringifyRows (rows st))"
  "k \<noteq> ''table_rows'' \<Longrightarrow> localStorage (persistRows st) k = localStorage st k"
  by (simp_all add: persistRows_def)

lemma persistColumns_simps:
  "rows (persistColumns st) = rows st"
  "columns (persistColumns st) = columns st"
  "localStorage (persistColumns st) ''table_columns'' = Some (stringifyColumns (columns st))"
  "k \<noteq> ''table_columns'' \<Longrightarrow> localStorage (persistColumns st) k = localStorage st k"
  by (simp_all add: persistColumns_def)

lemma rows_updateRow:
  "rows (updateRow st payload) =
     (case findIndex (\<lambda>r. get r ''id'' = get payload ''id'') (rows st) of
        None \<Rightarrow> rows st | Some idx \<Rightarrow> (rows st)[idx := payload])"
  by (simp add: updateRow_def persistRows_simps split: option.splits)

text \<open>
  Claim C6. \<open>updateRow\<close> with a payload whose \<open>id\<close> no stored row has leaves the rows as
  they are (no error, nothing inserted); when some row has the \<open>id\<close>, the first such row
  is replaced by the payload as it is, at the same position, and the list keeps its length.
  In both cases the rows are written to \<open>localStorage\<close> afterwards, and the columns are
  untouched.
\<close>

theorem updateRow_spec:
  "((\<forall>r \<in> set (rows st). get r ''id'' \<noteq> get payload ''id'') \<longrightarrow>
      rows (updateRow st payload) = rows st)
   \<and> ((\<exists>r \<in> set (rows st). get r ''id'' = get payload ''id'') \<longrightarrow>
      (\<exists>i < length (rows st).
         get (rows st ! i) ''id'' = get payload ''id''
         \<and> (\<forall>j < i. get (rows st ! j) ''id'' \<noteq> get payload ''id'')
         \<and> rows (updateRow st payload) = (rows st)[i := payload]
         \<and> rows (updateRow st payload) ! i = payload))
   \<and> length (rows (updateRow st payload)) = length (rows st)
   \<and> localStorage (updateRow st payload) ''table_rows''
        = Some (stringifyRows (rows (updateRow st payload)))
   \<and> columns (updateRow st payload) = columns st"
proof (intro conjI impI)
  assume "\<forall>r \<in> set (rows st). get r ''id'' \<noteq> get payload ''id''"
  then have "findIndex (\<lambda>r. get r ''id'' = get payload ''id'') (rows st) = None"
    by (simp add: findIndex_None)
  then show "rows (updateRow st payload) = rows st"
    by (simp add: rows_updateRow)
next
  assume "\<exists>r \<in> set (rows st). get r ''id'' = get payload ''id''"
  then have "findIndex (\<lambda>r. get r ''id'' = get payload ''id'') (rows st) \<noteq> None"
    by (simp add: findIndex_None)
  then obtain i where i: "findIndex (\<lambda>r. get r ''id'' = get payload ''id'') (rows st) = Some i"
    by blast
  from findIndex_Some [OF i] i
  show "\<exists>i < length (rows st).
         get (rows st ! i) ''id'' = get payload ''id''
         \<and> (\<forall>j < i. get (rows st ! j) ''id'' \<noteq> get payload ''id'')
         \<and> rows (updateRow st payload) = (rows st)[i := payload]
         \<and> rows (updateRow st payload) ! i = payload"
    by (intro exI [of _ i]) (simp add: rows_updateRow)
next
  show "length (rows (updateRow st payload)) = length (rows st)"
    by (simp add: rows_updateRow split: option.splits)
next
  show "localStorage (updateRow st payload) ''table_rows''
        = Some (stringifyRows (rows (updateRow st payload)))"
    by (simp add: updateRow_def persistRows_simps)
next
  show "columns (updateRow st payload) = columns st"
    by (simp add: updateRow_def persistRows_simps split: option.splits)
qed

theorem updateRow_spec_witness:
  "rows (updateRow initialState stranger) = sampleData
   \<and> rows (updateRow initialState johnEdited) = [sampleData ! 0, johnEdited, sampleData ! 2]
   \<and> localStorage (updateRow initialState johnEdited) ''table_rows''
        = Some (stringifyRows [sampleData ! 0, johnEdited, sampleData ! 2])"
  using updateRow_spec [of initialState stranger] updateRow_spec [of initialState johnEdited]
  by (simp add: updateRow_def persistRows_def initialState_def sampleData_def stranger_def
      johnEdited_def get_def)

lemma rows_deleteRow:
  "rows (deleteRow st i) = filter (\<lambda>r. get r ''id'' \<noteq> Str i) (rows st)"
  by (simp add: deleteRow_def persistRows_simps)

text \<open>
  Claim C7. \<open>deleteRow\<close> removes every row with the given \<open>id\<close> and keeps exactly the
  others; deleting an \<open>id\<close> that no row has leaves the rows unchanged; and deleting the
  same \<open>id\<close> twice gives the same state (rows, columns and \<open>localStorage\<close>) as deleting
  it once.
\<close>

theorem deleteRow_spec:
  "(\<forall>r \<in> set (rows (deleteRow st i)). get r ''id'' \<noteq> Str i)
   \<and> set (rows (deleteRow st i)) = {r \<in> set (rows st). get r ''id'' \<noteq> Str i}
   \<and> ((\<forall>r \<in> set (rows st). get r ''id'' \<noteq> Str i) \<longrightarrow> rows (deleteRow st i) = rows st)
   \<and> deleteRow (deleteRow st i) i = deleteRow st i"
proof (intro conjI impI)
  show "\<forall>r \<in> set (rows (deleteRow st i)). get r ''id'' \<noteq> Str i"
    by (simp add: rows_deleteRow)
  show "set (rows (deleteRow st i)) = {r \<in> set (rows st). get r ''id'' \<noteq> Str i}"
    by (simp add: rows_deleteRow)
  show "deleteRow (deleteRow st i) i = deleteRow st i"
    by (simp add: deleteRow_def persistRows_def)
next
  assume "\<forall>r \<in> set (rows st). get r ''id'' \<noteq> Str i"
  then show "rows (deleteRow st i) = rows st"
    by (simp add: rows_deleteRow)
qed

theorem deleteRow_spec_witness:
  "rows (deleteRow initialState ''2'') = [sampleData ! 0, sampleData ! 2]
   \<and> rows (deleteRow initialState ''9'') = sampleData
   \<and> deleteRow (deleteRow initialState ''2'') ''2'' = deleteRow initialState ''2''"
  using deleteRow_spec [of initialState "''2''"] deleteRow_spec [of initialState "''9''"]
  by (simp add: rows_deleteRow initialState_def sampleData_def get_def)

section \<open>The column registry\<close>

lemma findIndex_map_cong:
  "map p xs = map p ys \<Longrightarrow> findIndex p xs = findIndex p ys"
proof (induction xs arbitrary: ys)
  case Nil
  then show ?case by simp
next
  case (Cons x xs)
  then obtain y ys' where "ys = y # ys'" by (cases ys) auto
  with Cons show ?case by auto
qed

lemma columns_toggleColumn:
  "columns (toggleColumn st k) =
     (case findIndex (\<lambda>col. key col = k) (columns st) of
        None \<Rightarrow> columns st
      | Some i \<Rightarrow> (columns st)[i := (columns st ! i)\<lparr>visible := \<not> visible (columns st ! i)\<rparr>])"
  by (simp add: toggleColumn_def persistColumns_simps split: option.splits)

lemma map_key_toggleColumn: "map key (columns (toggleColumn st k)) = map key (columns st)"
  by (auto simp: columns_toggleColumn map_update list_update_same_conv
      dest: findIndex_Some split: option.splits)

lemma map_label_toggleColumn: "map label (columns (toggleColumn st k)) = map label (columns st)"
  by (auto simp: columns_toggleColumn map_update list_update_same_conv
      dest: findIndex_Some split: option.splits)

lemma toggleColumn_twice: "columns (toggleColumn (toggleColumn st k) k) = columns st"
proof -
  let ?p = "\<lambda>col. key col = k"
  have "map ?p xs = map (\<lambda>x. x = k) (map key xs)" for xs :: "columnDef list"
    by simp
  then have "map ?p (columns (toggleColumn st k)) = map ?p (columns st)"
    by (simp only: map_key_toggleColumn)
  then have same: "findIndex ?p (columns (toggleColumn st k)) = findIndex ?p (columns st)"
    by (rule findIndex_map_cong)
  show ?thesis
  proof (cases "findIndex ?p (columns st)")
    case None
    with same show ?thesis by (simp add: columns_toggleColumn)
  next
    case (Some i)
    from findIndex_Some [OF Some] have "i < length (columns st)" by simp
    with Some same show ?thesis
      by (simp add: columns_toggleColumn [of "toggleColumn st k"])
         (simp add: columns_toggleColumn list_update_same_conv)
  qed
qed

text \<open>
  Claim C10. \<open>toggleColumn\<close> keeps the length of the column list, every \<open>key\<close> and
  every \<open>label\<close>; a column that differs afterwards is the first column with the given key,
  and that column has its \<open>visible\<close> flag flipped and nothing else changed; when no column
  has the key the list is unchanged; toggling the same key twice restores the list.
\<close>

theorem toggleColumn_spec:
  "length (columns (toggleColumn st k)) = length (columns st)
   \<and> map key (columns (toggleColumn st k)) = map key (columns st)
   \<and> map label (columns (toggleColumn st k)) = map label (columns st)
   \<and> (\<forall>i < length (columns st).
        columns (toggleColumn st k) ! i \<noteq> columns st ! i \<longrightarrow>
          key (columns st ! i) = k \<and> (\<forall>j < i. key (columns st ! j) \<noteq> k))
   \<and> (\<forall>i < length (columns st).
        key (columns st ! i) = k \<and> (\<forall>j < i. key (columns st ! j) \<noteq> k) \<longrightarrow>
          columns (toggleColumn st k) ! i = (columns st ! i)\<lparr>visible := \<not> visible (columns st ! i)\<rparr>)
   \<and> ((\<forall>c \<in> set (columns st). key c \<noteq> k) \<longrightarrow> columns (toggleColumn st k) = columns st)
   \<and> columns (toggleColumn (toggleColumn st k) k) = columns st"
proof (intro conjI)
  show "length (columns (toggleColumn st k)) = length (columns st)"
    using map_key_toggleColumn [of st k] by (metis length_map)
  show "map key (columns (toggleColumn st k)) = map key (columns st)"
    by (rule map_key_toggleColumn)
  show "map label (columns (toggleColumn st k)) = map label (columns st)"
    by (rule map_label_toggleColumn)
  show "columns (toggleColumn (toggleColumn st k) k) = columns st"
    by (rule toggleColumn_twice)
next
  show "\<forall>i < length (columns st).
        columns (toggleColumn st k) ! i \<noteq> columns st ! i \<longrightarrow>
          key (columns st ! i) = k \<and> (\<forall>j < i. key (columns st ! j) \<noteq> k)"
  proof (intro allI impI)
  fix i
  assume i: "i < length (columns st)" and ne: "columns (toggleColumn st k) ! i \<noteq> columns st ! i"
  from ne obtain m where m: "findIndex (\<lambda>col. key col = k) (columns st) = Some m"
    by (cases "findIndex (\<lambda>col. key col = k) (columns st)") (auto simp: columns_toggleColumn)
  with ne have "m = i"
    by (auto simp: columns_toggleColumn intro: ccontr)
  with findIndex_Some [OF m]
  show "key (columns st ! i) = k \<and> (\<forall>j < i. key (columns st ! j) \<noteq> k)"
    by simp
  qed
next
  show "\<forall>i < length (columns st).
        key (columns st ! i) = k \<and> (\<forall>j < i. key (columns st ! j) \<noteq> k) \<longrightarrow>
          columns (toggleColumn st k) ! i = (columns st ! i)\<lparr>visible := \<not> visible (columns st ! i)\<rparr>"
  proof (intro allI impI)
  fix i
  assume "i < length (columns st)"
    and "key (columns st ! i) = k \<and> (\<forall>j < i. key (columns st ! j) \<noteq> k)"
  then have "findIndex (\<lambda>col. key col = k) (columns st) = Some i"
    by (intro findIndex_first) auto
  with \<open>i < length (columns st)\<close>
  show "columns (toggleColumn st k) ! i = (columns st ! i)\<lparr>visible := \<not> visible (columns st ! i)\<rparr>"
    by (simp add: columns_toggleColumn)
  qed
next
  show "(\<forall>c \<in> set (columns st). key c \<noteq> k) \<longrightarrow> columns (toggleColumn st k) = columns st"
  proof
  assume "\<forall>c \<in> set (columns st). key c \<noteq> k"
  then have "findIndex (\<lambda>col. key col = k) (columns st) = None"
    by (simp add: findIndex_None)
  then show "columns (toggleColumn st k) = columns st"
    by (simp add: columns_toggleColumn)
  qed
qed

theorem toggleColumn_spec_witness:
  "columns (toggleColumn initialState ''email'') =
     [\<lparr>key = ''name'', label = ''Name'', visible = True\<rparr>,
      \<lparr>key = ''email'', label = ''Email'', visible = False\<rparr>,
      \<lparr>key = ''age'', label = ''Age'', visible = True\<rparr>,
      \<lparr>key = ''role'', label = ''Role'', visible = True\<rparr>]
   \<and> columns (toggleColumn initialState ''phone'') = defaultColumns
   \<and> columns (toggleColumn (toggleColumn initialState ''email'') ''email'') = defaultColumns"
proof -
  have absent: "\<forall>c \<in> set (columns initialState). key c \<noteq> ''phone''"
    by (simp add: initialState_def defaultColumns_def)
  have twice: "columns (toggleColumn (toggleColumn initialState ''email'') ''email'') = columns initialState"
    using toggleColumn_spec [of initialState "''email''"] by (elim conjE)
  have none: "columns (toggleColumn initialState ''phone'') = columns initialState"
    using toggleColumn_spec [of initialState "''phone''"] absent by (elim conjE) (rule mp)
  have once: "columns (toggleColumn initialState ''email'') =
     [\<lparr>key = ''name'', label = ''Name'', visible = True\<rparr>,
      \<lparr>key = ''email'', label = ''Email'', visible = False\<rparr>,
      \<lparr>key = ''age'', label = ''Age'', visible = True\<rparr>,
      \<lparr>key = ''role'', label = ''Role'', visible = True\<rparr>]"
    by (simp add: columns_toggleColumn initialState_def defaultColumns_def)
  from once none twice show ?thesis
    by (simp add: initialState_def)
qed

section \<open>Evaluating strings and numbers\<close>

lemma char_of_eval:
  "char_of (n :: nat) =
     Char (odd n) (odd (n div 2)) (odd (n div 4)) (odd (n div 8))
       (odd (n div 16)) (odd (n div 32)) (odd (n div 64)) (odd (n div 128))"
  by (simp add: char_of_def bit_iff_odd)

lemmas toLowerCase_eval = toLowerCase_def lowerChar_def char_of_eval Let_def

lemmas trim_eval = trim_def isWhiteSpace_def



section \<open>Pagination\<close>

lemma slice_nth: "slice xs s e = map (nth xs) [s ..< min e (length xs)]"
proof (rule nth_equalityI)
  show "length (slice xs s e) = length (map (nth xs) [s ..< min e (length xs)])"
    by (simp add: slice_def)
next
  fix i
  assume "i < length (slice xs s e)"
  then have "i < e - s" and "i < length xs - s"
    by (simp_all add: slice_def)
  then have "s + i < min e (length xs)"
    by (auto simp: min_def)
  then have "[s ..< min e (length xs)] ! i = s + i"
    by (rule nth_upt)
  with \<open>i < e - s\<close> \<open>i < length xs - s\<close>
  show "slice xs s e ! i = map (nth xs) [s ..< min e (length xs)] ! i"
    by (simp add: slice_def)
qed

text \<open>
  Claim C8. The page is the slice of the filtered and sorted sequence from
  \<open>page * rowsPerPage\<close> up to \<open>(page + 1) * rowsPerPage\<close> (cut at the end of the sequence),
  and the count is the length of the whole filtered sequence; over twelve rows that are
  neither filtered nor sorted, page 1 of size 5 holds the rows at indices 5 to 9 and the
  count is 12.
\<close>

theorem paginated_spec:
  "paginated flt page rowsPerPage =
     map (nth flt) [page * rowsPerPage ..< min ((page + 1) * rowsPerPage) (length flt)]
   \<and> paginationCount flt = length flt
   \<and> (length rs = 12 \<longrightarrow>
        paginated (filtered stringToNumber rs [] None sortDir) 1 5 = [rs ! 5, rs ! 6, rs ! 7, rs ! 8, rs ! 9]
        \<and> paginationCount (filtered stringToNumber rs [] None sortDir) = 12)"
proof (intro conjI impI)
  show "paginated flt page rowsPerPage =
     map (nth flt) [page * rowsPerPage ..< min ((page + 1) * rowsPerPage) (length flt)]"
    unfolding paginated_def by (rule slice_nth)
  show "paginationCount flt = length flt"
    by (simp add: paginationCount_def)
next
  assume len: "length rs = 12"
  have flt: "filtered stringToNumber rs [] None sortDir = rs"
    by (simp add: filtered_def searchRows_def Let_def trim_def toLowerCase_def)
  have "[5 ..< 10] = [5, 6, 7, 8, 9 :: nat]"
    by (simp add: upt_rec)
  with len show "paginated (filtered stringToNumber rs [] None sortDir) 1 5 = [rs ! 5, rs ! 6, rs ! 7, rs ! 8, rs ! 9]"
    by (simp add: flt paginated_def slice_nth)
  from len show "paginationCount (filtered stringToNumber rs [] None sortDir) = 12"
    by (simp add: flt paginationCount_def)
qed

theorem paginated_spec_witness:
  "length twelveRows = 12
   \<and> paginated (filtered StringToNumber twelveRows [] None Asc) 1 5 =
       [[(''id'', Str ''5''), (''age'', Num 5)], [(''id'', Str ''6''), (''age'', Num 6)],
        [(''id'', Str ''7''), (''age'', Num 7)], [(''id'', Str ''8''), (''age'', Num 8)],
        [(''id'', Str ''9''), (''age'', Num 9)]]
   \<and> paginationCount (filtered StringToNumber twelveRows [] None Asc) = 12"
proof -
  have len: "length twelveRows = 12"
    by (simp add: twelveRows_def)
  have nth: "[twelveRows ! 5, twelveRows ! 6, twelveRows ! 7, twelveRows ! 8, twelveRows ! 9] =
       [[(''id'', Str ''5''), (''age'', Num 5)], [(''id'', Str ''6''), (''age'', Num 6)],
        [(''id'', Str ''7''), (''age'', Num 7)], [(''id'', Str ''8''), (''age'', Num 8)],
        [(''id'', Str ''9''), (''age'', Num 9)]]"
    by (simp add: twelveRows_def natToString.simps digitChar_def)
  from paginated_spec [of "[]" 0 0 twelveRows StringToNumber Asc] len nth show ?thesis
    by simp
qed


section \<open>Search\<close>

lemma startsWith_iff: "startsWith s q \<longleftrightarrow> (\<exists>suf. s = q @ suf)"
  by (induction s q rule: startsWith.induct) auto

lemma includesStr_iff: "includesStr s q \<longleftrightarrow> (\<exists>pre suf. s = pre @ q @ suf)"
proof (induction s)
  case Nil
  then show ?case by simp
next
  case (Cons c cs)
  show ?case
  proof
    assume "includesStr (c # cs) q"
    then consider "startsWith (c # cs) q" | "includesStr cs q"
      by auto
    then show "\<exists>pre suf. c # cs = pre @ q @ suf"
    proof cases
      case 1
      then obtain suf where "c # cs = q @ suf"
        by (auto simp only: startsWith_iff)
      then have "c # cs = [] @ q @ suf" by simp
      then show ?thesis by blast
    next
      case 2
      with Cons.IH obtain pre suf where "cs = pre @ q @ suf" by blast
      then have "c # cs = (c # pre) @ q @ suf" by simp
      then show ?thesis by blast
    qed
  next
    assume "\<exists>pre suf. c # cs = pre @ q @ suf"
    then obtain pre suf where eq: "c # cs = pre @ q @ suf" by blast
    show "includesStr (c # cs) q"
    proof (cases pre)
      case Nil
      with eq have "startsWith (c # cs) q"
        by (auto simp only: startsWith_iff append_Nil)
      then show ?thesis by simp
    next
      case (Cons p pre')
      with eq have "cs = pre' @ q @ suf" by simp
      with Cons.IH have "includesStr cs q" by blast
      then show ?thesis by simp
    qed
  qed
qed

lemma set_insertBy: "set (insertBy cmp x ys) = insert x (set ys)"
  by (induction ys) auto

lemma length_insertBy: "length (insertBy cmp x ys) = Suc (length ys)"
  by (induction ys) auto

lemma set_sortBy: "set (sortBy cmp xs) = set xs"
  by (induction xs) (simp_all add: sortBy_def set_insertBy)

lemma length_sortBy: "length (sortBy cmp xs) = length xs"
  by (induction xs) (simp_all add: sortBy_def length_insertBy)

lemma set_filtered: "set (filtered stringToNumber rs search sortKey sortDir) = set (searchRows rs search)"
  by (simp add: filtered_def Let_def set_sortBy split: option.splits)

lemma length_filtered:
  "length (filtered stringToNumber rs search sortKey sortDir) = length (searchRows rs search)"
  by (simp add: filtered_def Let_def length_sortBy split: option.splits)

lemma sortBy_single: "sortBy cmp [x] = [x]"
  by (simp add: sortBy_def)

lemma alice_query: "toLowerCase (trim ''alice'') = ''alice''"
  by (simp add: trim_eval toLowerCase_eval)

lemma alice_email: "includesStr (toLowerCase (jsString (Str ''alice@example.com''))) ''alice''"
  by (simp add: toLowerCase_eval)

lemma searchRows_append:
  "searchRows (xs @ ys) search = searchRows xs search @ searchRows ys search"
  by (simp add: searchRows_def Let_def)

lemma searchRows_none:
  assumes "toLowerCase (trim search) \<noteq> []"
    and "\<forall>r \<in> set rs. \<not> (\<exists>v \<in> set (map snd r). \<exists>a b.
            toLowerCase (jsString v) = a @ toLowerCase (trim search) @ b)"
  shows "searchRows rs search = []"
  using assms by (simp add: searchRows_def Let_def list_ex_iff includesStr_iff)

lemma get_in_values:
  assumes "get r k = v" and "v \<noteq> Undefined"
  shows "v \<in> set (map snd r)"
proof (cases "map_of r k")
  case None
  with assms show ?thesis by (simp add: get_def)
next
  case (Some w)
  then have "(k, w) \<in> set r" by (rule map_of_SomeD)
  then have "snd (k, w) \<in> snd ` set r" by (rule imageI)
  with Some assms(1) show ?thesis by (simp add: get_def)
qed

lemma list_ex_member: "x \<in> set xs \<Longrightarrow> P x \<Longrightarrow> list_ex P xs"
  by (auto simp: list_ex_iff)

lemma searchRows_alice_row:
  assumes "get r ''email'' = Str ''alice@example.com''"
  shows "searchRows [r] ''alice'' = [r]"
proof -
  from assms have mem: "Str ''alice@example.com'' \<in> set (map snd r)"
    by (rule get_in_values) (rule jsval.distinct)
  have "list_ex (\<lambda>v. includesStr (toLowerCase (jsString v)) ''alice'') (map snd r)"
    by (rule list_ex_member
        [where P = "\<lambda>v. includesStr (toLowerCase (jsString v)) ''alice''", OF mem alice_email])
  then show ?thesis
    unfolding searchRows_def alice_query by (simp only: Let_def filter.simps simp_thms if_True)
qed

text \<open>
  Claim C9, as stated, fails in its closing clause: the search looks in every field, so
  with exactly one row of email \<open>alice@example.com\<close> and a second row named
  \<open>Alice Cooper\<close>, the search for \<open>alice\<close> returns both rows and the count is 2.
\<close>

theorem search_other_field_counterexample:
  "[r \<leftarrow> cooperRows. get r ''email'' = Str ''alice@example.com''] = [cooperRows ! 0]
   \<and> filtered StringToNumber cooperRows ''alice'' None Asc = cooperRows
   \<and> paginationCount (filtered StringToNumber cooperRows ''alice'' None Asc) = 2"
proof -
  have one: "[r \<leftarrow> cooperRows. get r ''email'' = Str ''alice@example.com''] = [cooperRows ! 0]"
    by (simp add: cooperRows_def get_def)
  have both: "searchRows cooperRows ''alice'' = cooperRows"
    unfolding searchRows_def alice_query
    by (simp add: cooperRows_def toLowerCase_eval)
  then have flt: "filtered StringToNumber cooperRows ''alice'' None Asc = cooperRows"
    by (simp add: filtered_def)
  have "length cooperRows = 2"
    by (simp add: cooperRows_def)
  with one flt show ?thesis
    by (simp add: paginationCount_def)
qed

text \<open>
  Claim C9, amended. With \<open>q\<close> the trimmed, lower-cased search text, the filter stage
  keeps, in order, exactly the rows for which \<open>q\<close> is empty or some field value, turned
  into a string and lower-cased, contains \<open>q\<close> as a substring; the view holds the same
  rows whatever the sort. Searching \<open>alice\<close> over rows of which one has the email
  \<open>alice@example.com\<close> and no other has a field value containing \<open>alice\<close> in any letter
  case gives that row only, and the count 1. On the sample rows: \<open>alice\<close> finds the first
  row; \<open>ADMIN\<close> between a space, a tab and a no-break space finds the role \<open>Admin\<close>; a
  no-break space alone is a blank query and keeps every row; \<open>28\<close> finds the age 28. The
  capital letter U+00C9 finds the small letter U+00E9, and \<open>Undef\<close> finds a field whose
  value is \<open>undefined\<close>.
\<close>

theorem searchRows_spec:
  "searchRows rs search =
     filter (\<lambda>r. toLowerCase (trim search) = [] \<or>
                 (\<exists>v \<in> set (map snd r). \<exists>pre suf.
                     toLowerCase (jsString v) = pre @ toLowerCase (trim search) @ suf)) rs
   \<and> set (filtered stringToNumber rs search sortKey sortDir) = set (searchRows rs search)
   \<and> filtered stringToNumber rs search None sortDir = searchRows rs search
   \<and> (get r ''email'' = Str ''alice@example.com''
        \<and> (\<forall>r' \<in> set before \<union> set after. \<not> (\<exists>v \<in> set (map snd r'). \<exists>a b.
              toLowerCase (jsString v) = a @ toLowerCase (trim ''alice'') @ b)) \<longrightarrow>
        filtered stringToNumber (before @ r # after) ''alice'' sortKey sortDir = [r]
        \<and> paginationCount (filtered stringToNumber (before @ r # after) ''alice'' sortKey sortDir) = 1)
   \<and> searchRows sampleData ''alice'' = [sampleData ! 0]
   \<and> searchRows sampleData ('' ADMIN'' @ [CHR 0x09, CHR 0xA0]) = [sampleData ! 0]
   \<and> searchRows sampleData [CHR 0xA0] = sampleData
   \<and> searchRows sampleData ''28'' = [sampleData ! 1]
   \<and> searchRows accentRows [CHR 0xC9] = [accentRows ! 0]
   \<and> searchRows phoneRows ''Undef'' = [phoneRows ! 0]"
proof (intro conjI)
  show "searchRows rs search =
     filter (\<lambda>r. toLowerCase (trim search) = [] \<or>
                 (\<exists>v \<in> set (map snd r). \<exists>pre suf.
                     toLowerCase (jsString v) = pre @ toLowerCase (trim search) @ suf)) rs"
    by (simp add: searchRows_def Let_def list_ex_iff includesStr_iff)
  show "set (filtered stringToNumber rs search sortKey sortDir) = set (searchRows rs search)"
    by (rule set_filtered)
  show "filtered stringToNumber rs search None sortDir = searchRows rs search"
    by (simp add: filtered_def Let_def)
next
  show "get r ''email'' = Str ''alice@example.com''
        \<and> (\<forall>r' \<in> set before \<union> set after. \<not> (\<exists>v \<in> set (map snd r'). \<exists>a b.
              toLowerCase (jsString v) = a @ toLowerCase (trim ''alice'') @ b)) \<longrightarrow>
        filtered stringToNumber (before @ r # after) ''alice'' sortKey sortDir = [r]
        \<and> paginationCount (filtered stringToNumber (before @ r # after) ''alice'' sortKey sortDir) = 1"
  proof
    assume hyp: "get r ''email'' = Str ''alice@example.com''
        \<and> (\<forall>r' \<in> set before \<union> set after. \<not> (\<exists>v \<in> set (map snd r'). \<exists>a b.
              toLowerCase (jsString v) = a @ toLowerCase (trim ''alice'') @ b))"
    have q: "toLowerCase (trim ''alice'') \<noteq> []"
      by (simp add: alice_query)
    from hyp have nb: "\<forall>r' \<in> set before. \<not> (\<exists>v \<in> set (map snd r'). \<exists>a b.
              toLowerCase (jsString v) = a @ toLowerCase (trim ''alice'') @ b)"
      and na: "\<forall>r' \<in> set after. \<not> (\<exists>v \<in> set (map snd r'). \<exists>a b.
              toLowerCase (jsString v) = a @ toLowerCase (trim ''alice'') @ b)"
      by blast+
    have "searchRows before ''alice'' = []" and "searchRows after ''alice'' = []"
      by (rule searchRows_none [OF q nb], rule searchRows_none [OF q na])
    moreover from hyp have "searchRows [r] ''alice'' = [r]"
      by (intro searchRows_alice_row) simp
    ultimately have "searchRows (before @ [r] @ after) ''alice'' = [r]"
      by (simp only: searchRows_append append_Nil append_Nil2)
    then have found: "searchRows (before @ r # after) ''alice'' = [r]"
      by simp
    have flt: "filtered stringToNumber (before @ r # after) ''alice'' sortKey sortDir = [r]"
      unfolding filtered_def found by (simp add: Let_def sortBy_single split: option.splits)
    show "filtered stringToNumber (before @ r # after) ''alice'' sortKey sortDir = [r]
        \<and> paginationCount (filtered stringToNumber (before @ r # after) ''alice'' sortKey sortDir) = 1"
      unfolding flt by (simp add: paginationCount_def)
  qed
next
  show "searchRows sampleData ''alice'' = [sampleData ! 0]"
    unfolding searchRows_def alice_query
    by (simp add: sampleData_def toLowerCase_eval intToString_def natToString.simps digitChar_def)
  have admin: "toLowerCase (trim ('' ADMIN'' @ [CHR 0x09, CHR 0xA0])) = ''admin''"
    by (simp add: trim_eval toLowerCase_eval)
  show "searchRows sampleData ('' ADMIN'' @ [CHR 0x09, CHR 0xA0]) = [sampleData ! 0]"
    unfolding searchRows_def admin
    by (simp add: sampleData_def toLowerCase_eval intToString_def natToString.simps digitChar_def)
  have blank: "toLowerCase (trim [CHR 0xA0]) = []"
    by (simp add: trim_eval toLowerCase_eval)
  show "searchRows sampleData [CHR 0xA0] = sampleData"
    unfolding searchRows_def blank by simp
  have q28: "toLowerCase (trim ''28'') = ''28''"
    by (simp add: trim_eval toLowerCase_eval)
  show "searchRows sampleData ''28'' = [sampleData ! 1]"
    unfolding searchRows_def q28
    by (simp add: sampleData_def toLowerCase_eval intToString_def natToString.simps digitChar_def)
  have accent: "toLowerCase (trim [CHR 0xC9]) = [CHR 0xE9]"
    by (simp add: trim_eval toLowerCase_eval)
  show "searchRows accentRows [CHR 0xC9] = [accentRows ! 0]"
    unfolding searchRows_def accent
    by (simp add: accentRows_def toLowerCase_eval)
  have undef: "toLowerCase (trim ''Undef'') = ''undef''"
    by (simp add: trim_eval toLowerCase_eval)
  show "searchRows phoneRows ''Undef'' = [phoneRows ! 0]"
    unfolding searchRows_def undef
    by (simp add: phoneRows_def toLowerCase_eval)
qed

theorem searchRows_spec_witness:
  "get (sampleData ! 0) ''email'' = Str ''alice@example.com''
   \<and> filtered StringToNumber sampleData ''alice'' (Some ''age'') Desc = [sampleData ! 0]
   \<and> paginationCount (filtered StringToNumber sampleData ''alice'' (Some ''age'') Desc) = 1"
proof -
  have email: "get (sampleData ! 0) ''email'' = Str ''alice@example.com''"
    by (simp add: sampleData_def get_def)
  have others: "\<forall>r' \<in> set [] \<union> set [sampleData ! 1, sampleData ! 2].
      \<not> (\<exists>v \<in> set (map snd r'). \<exists>a b.
            toLowerCase (jsString v) = a @ toLowerCase (trim ''alice'') @ b)"
    unfolding alice_query includesStr_iff [symmetric]
    by (simp add: sampleData_def toLowerCase_eval intToString_def natToString.simps digitChar_def)
  have split: "[] @ sampleData ! 0 # [sampleData ! 1, sampleData ! 2] = sampleData"
    by (simp add: sampleData_def)
  note spec = searchRows_spec [of "[]" "[]" StringToNumber "Some ''age''" Desc "sampleData ! 0"
      "[]" "[sampleData ! 1, sampleData ! 2]"]
  note found = spec [THEN conjunct2, THEN conjunct2, THEN conjunct2, THEN conjunct1, THEN mp,
      OF conjI [OF email others], unfolded split]
  show ?thesis
    by (rule conjI [OF email found])
qed

section \<open>Sorting\<close>






section \<open>Objects\<close>

lemma map_of_setProp: "map_of (setProp k v r) = (map_of r)(k \<mapsto> v)"
  by (induction r) (auto simp: fun_eq_iff)

lemma keys_setProp:
  "map fst (setProp k v r) = (if k \<in> set (map fst r) then map fst r else map fst r @ [k])"
  by (induction r) auto

lemma wf_setProp: "wf_obj r \<Longrightarrow> wf_obj (setProp k v r)"
  by (simp add: wf_obj_def keys_setProp)


lemma wf_spread: "wf_obj tgt \<Longrightarrow> wf_obj (spread tgt r)"
  unfolding spread_def
  by (induction r arbitrary: tgt) (auto simp: wf_setProp)

lemma map_of_spread:
  "wf_obj r \<Longrightarrow>
   map_of (spread tgt r) k = (case map_of r k of None \<Rightarrow> map_of tgt k | Some v \<Rightarrow> Some v)"
  unfolding spread_def wf_obj_def
proof (induction r arbitrary: tgt)
  case Nil
  then show ?case by simp
next
  case (Cons p ps)
  obtain k' v' where p: "p = (k', v')" by (cases p)
  from Cons.prems p have notin: "map_of ps k' = None"
    by (simp add: map_of_eq_None_iff)
  from Cons.prems have "distinct (map fst ps)" by simp
  from Cons.IH [OF this, of "setProp k' v' tgt"] p notin show ?case
    by (auto simp: map_of_setProp split: option.splits)
qed

lemma get_spread:
  "get (spread tgt r) k = (if k \<in> fst ` set r then get r k else get tgt k)" if "wf_obj r"
proof (cases "map_of r k")
  case None
  moreover from None have "k \<notin> fst ` set r"
    by (simp add: map_of_eq_None_iff)
  ultimately show ?thesis
    using that by (simp add: get_def map_of_spread)
next
  case (Some v)
  moreover from Some have "k \<in> fst ` set r"
    by (metis map_of_eq_None_iff option.distinct(1))
  ultimately show ?thesis
    using that by (simp add: get_def map_of_spread)
qed

section \<open>\<open>parseCSV\<close>\<close>

lemma parseLoop_eq:
  "parseLoop now i rs errs =
     (map (\<lambda>j. parseRow now (i + j) (rs ! j)) [0 ..< length rs],
      errs @ map (\<lambda>j. rowErrorMessage (i + j))
               [j \<leftarrow> [0 ..< length rs].
                  \<not> truthy (get (rs ! j) ''name'') \<or> \<not> truthy (get (rs ! j) ''email'')])"
proof (induction rs arbitrary: i errs)
  case Nil
  then show ?case by simp
next
  case (Cons r rs)
  have upt: "[0 ..< length (r # rs)] = 0 # map Suc [0 ..< length rs]"
    by (simp add: upt_conv_Cons map_Suc_upt del: upt_Suc)
  show ?case
    unfolding upt
    by (simp add: Cons.IH Let_def filter_map o_def del: upt_Suc)
qed

lemma data_parseData:
  "data (parseData now res) = map (\<lambda>i. parseRow now i (res ! i)) [0 ..< length res]"
  by (simp add: parseData_def parseLoop_eq)

lemma errors_parseData:
  "errors (parseData now res) =
     map rowErrorMessage
       [i \<leftarrow> [0 ..< length res].
          \<not> truthy (get (res ! i) ''name'') \<or> \<not> truthy (get (res ! i) ''email'')]"
  by (simp add: parseData_def parseLoop_eq)

lemma not_truthy_iff: "\<not> truthy v \<longleftrightarrow> v = Undefined \<or> v = Null \<or> v = Str [] \<or> v = Num 0"
  by (cases v) auto

lemma get_Nil: "get [] k = Undefined"
  by (simp add: get_def)

lemma get_Cons: "get ((k', v) # ps) k = (if k = k' then v else get ps k)"
  by (simp add: get_def)

lemma get_absent: "k \<notin> fst ` set r \<Longrightarrow> get r k = Undefined"
  by (simp add: get_def map_of_eq_None_iff [THEN iffD2])

lemma js_or_Undefined: "js_or Undefined v = v"
  by (simp add: js_or_def)

lemma get_parseRow_raw:
  assumes "wf_obj r" and "k \<in> fst ` set r"
  shows "get (parseRow now i r) k = get r k"
  unfolding parseRow_def using assms by (simp only: get_spread if_True)


lemma get_fallbacks:
  assumes "k \<notin> fst ` set r"
  shows "get (map (\<lambda>(k', d). (k', js_or (get r k') d)) ds) k = get ds k"
proof (induction ds)
  case Nil
  show ?case by simp
next
  case (Cons p ds)
  obtain k' d where p: "p = (k', d)" by (cases p)
  from assms have "get r k = Undefined" by (rule get_absent)
  with Cons p show ?case
    by (auto simp: get_Cons js_or_Undefined)
qed

lemma parseRow_fallbacks:
  "parseRow now i r = spread (map (\<lambda>(k', d). (k', js_or (get r k') d)) (rowDefaults now i)) r"
  by (simp add: parseRow_def rowDefaults_def)

lemma get_parseRow_default:
  assumes "wf_obj r" and "k \<notin> fst ` set r"
  shows "get (parseRow now i r) k = get (rowDefaults now i) k"
  unfolding parseRow_fallbacks using assms by (simp add: get_spread get_fallbacks)

lemma get_parseRow:
  assumes "wf_obj r"
  shows "get (parseRow now i r) k =
     (if k \<in> fst ` set r then get r k else get (rowDefaults now i) k)"
  using get_parseRow_raw [OF assms] get_parseRow_default [OF assms] by auto

text \<open>
  Claim C1. For every data row that \<open>Papa.parse\<close> returned (an object, no key twice): a
  key of the raw row holds exactly its raw value in the constructed row, whatever the
  value; a key the raw row lacks holds its default (the synthesized id, the empty name and
  email, the age \<open>0\<close>, the role \<open>Viewer\<close>) or is absent; so a raw \<open>id\<close> that is the empty
  string replaces the synthesized id.
\<close>

theorem parseCSV_raw_fields:
  assumes "i < length res_data" and "wf_obj (res_data ! i)"
  shows "(\<forall>k v. map_of (res_data ! i) k = Some v \<longrightarrow>
            map_of (data (parseData now res_data) ! i) k = Some v)
       \<and> (\<forall>k. k \<notin> fst ` set (res_data ! i) \<longrightarrow>
            get (data (parseData now res_data) ! i) k = get (rowDefaults now i) k)
       \<and> (map_of (res_data ! i) ''id'' = Some (Str []) \<longrightarrow>
            get (data (parseData now res_data) ! i) ''id'' = Str []
            \<and> get (data (parseData now res_data) ! i) ''id''
                \<noteq> Str (natToString (now i) @ ''-'' @ natToString i))"
proof -
  from assms(1) have row: "data (parseData now res_data) ! i = parseRow now i (res_data ! i)"
    by (simp add: data_parseData)
  have raw: "map_of (parseRow now i (res_data ! i)) k = Some v"
    if "map_of (res_data ! i) k = Some v" for k v
    using that assms(2) by (simp add: parseRow_def map_of_spread)
  have dflt: "get (parseRow now i (res_data ! i)) k = get (rowDefaults now i) k"
    if "k \<notin> fst ` set (res_data ! i)" for k
    using that assms(2) by (simp add: get_parseRow)
  have empty: "get (parseRow now i (res_data ! i)) ''id'' = Str []"
    if "map_of (res_data ! i) ''id'' = Some (Str [])"
    using raw [OF that] by (simp add: get_def)
  have differs: "Str [] \<noteq> Str (natToString (now i) @ ''-'' @ natToString i)"
    by simp
  show ?thesis
    unfolding row
  proof (intro conjI allI impI)
    fix k v
    assume "map_of (res_data ! i) k = Some v"
    then show "map_of (parseRow now i (res_data ! i)) k = Some v"
      by (rule raw)
  next
    fix k
    assume "k \<notin> fst ` set (res_data ! i)"
    then show "get (parseRow now i (res_data ! i)) k = get (rowDefaults now i) k"
      by (rule dflt)
  next
    assume "map_of (res_data ! i) ''id'' = Some (Str [])"
    then show "get (parseRow now i (res_data ! i)) ''id'' = Str []"
      by (rule empty)
  next
    assume "map_of (res_data ! i) ''id'' = Some (Str [])"
    then have "get (parseRow now i (res_data ! i)) ''id'' = Str []"
      by (rule empty)
    with differs
    show "get (parseRow now i (res_data ! i)) ''id'' \<noteq> Str (natToString (now i) @ ''-'' @ natToString i)"
      by simp
  qed
qed

theorem parseCSV_raw_fields_witness:
  "0 < length emptyIdRows \<and> wf_obj (emptyIdRows ! 0)
   \<and> data (parseData (\<lambda>i. 17) emptyIdRows) ! 0 =
       [(''id'', Str []), (''name'', Str ''Ann''), (''email'', Str ''ann@x.com''),
        (''age'', Num 0), (''role'', Str ''Viewer'')]
   \<and> get (data (parseData (\<lambda>i. 17) emptyIdRows) ! 0) ''id'' = Str []
   \<and> get (data (parseData (\<lambda>i. 17) emptyIdRows) ! 0) ''age'' = Num 0"
proof -
  have len: "0 < length emptyIdRows" and wf: "wf_obj (emptyIdRows ! 0)"
    by (simp_all add: emptyIdRows_def wf_obj_def)
  have row: "data (parseData (\<lambda>i. 17) emptyIdRows) ! 0 =
       [(''id'', Str []), (''name'', Str ''Ann''), (''email'', Str ''ann@x.com''),
        (''age'', Num 0), (''role'', Str ''Viewer'')]"
    by (simp add: data_parseData emptyIdRows_def parseRow_def spread_def get_def js_or_def)
  have raw: "map_of (emptyIdRows ! 0) ''id'' = Some (Str [])"
    and age: "''age'' \<notin> fst ` set (emptyIdRows ! 0)"
    by (simp_all add: emptyIdRows_def)
  note fields = parseCSV_raw_fields [OF len wf, of "\<lambda>i. 17"]
  from fields [THEN conjunct2, THEN conjunct2, THEN mp, OF raw]
  have id: "get (data (parseData (\<lambda>i. 17) emptyIdRows) ! 0) ''id'' = Str []"
    by (rule conjunct1)
  from fields [THEN conjunct2, THEN conjunct1, THEN spec, THEN mp, OF age]
  have "get (data (parseData (\<lambda>i. 17) emptyIdRows) ! 0) ''age'' = get (rowDefaults (\<lambda>i. 17) 0) ''age''" .
  also have "\<dots> = Num 0"
    by (simp add: rowDefaults_def get_def)
  finally have "get (data (parseData (\<lambda>i. 17) emptyIdRows) ! 0) ''age'' = Num 0" .
  with len wf row id show ?thesis
    by (intro conjI)
qed


lemma Papa_parse_bobText:
  "Papa_parse bobText = [[(''name'', Str []), (''email'', Str ''bob@x.com'')]]"
  by (simp add: Papa_parse_def bobText_def LF_def CR_def quoteChar_def newRecord_def
      isEmptyLine_def rowObject_def)

text \<open>
  Claim C4. \<open>parseCSV\<close> builds one row per data row that the CSV library returned, in
  order, so no row is dropped: as many rows as the text has lines that are not empty,
  less the header line; the errors are, in order, one message for each data row
  whose \<open>name\<close> or \<open>email\<close> is missing or empty (not truthy), and the message carries the
  1-based index of the row among the data rows. For the text \<open>name,email\<close>, line feed,
  \<open>,bob@x.com\<close>, line feed, one row is imported and the one error names row 1.
\<close>

theorem parseCSV_rows_errors:
  "data (parseData now res_data) = map (\<lambda>i. parseRow now i (res_data ! i)) [0 ..< length res_data]
   \<and> length (data (parseData now res_data)) = length res_data
   \<and> errors (parseData now res_data) =
       map (\<lambda>i. ''Row '' @ natToString (i + 1) @ '':missing name or email'')
         [i \<leftarrow> [0 ..< length res_data].
            get (res_data ! i) ''name'' \<in> {Undefined, Null, Str [], Num 0}
            \<or> get (res_data ! i) ''email'' \<in> {Undefined, Null, Str [], Num 0}]
   \<and> length (data (parseCSV now text)) = length (Papa_parse text)
   \<and> length (Papa_parse text) = length [fs \<leftarrow> scan FieldStart text. \<not> isEmptyLine fs] - 1
   \<and> data (parseCSV now bobText) =
       [[(''id'', Str (natToString (now 0) @ ''-0'')), (''name'', Str []),
         (''email'', Str ''bob@x.com''), (''age'', Num 0), (''role'', Str ''Viewer'')]]
   \<and> errors (parseCSV now bobText) = [''Row 1:missing name or email'']"
proof (intro conjI)
  show "data (parseData now res_data) = map (\<lambda>i. parseRow now i (res_data ! i)) [0 ..< length res_data]"
    by (rule data_parseData)
  show "length (data (parseData now res_data)) = length res_data"
    by (simp add: data_parseData)
  have falsy: "(\<not> truthy v) = (v \<in> {Undefined, Null, Str [], Num 0})" for v
    by (cases v) auto
  show "errors (parseData now res_data) =
       map (\<lambda>i. ''Row '' @ natToString (i + 1) @ '':missing name or email'')
         [i \<leftarrow> [0 ..< length res_data].
            get (res_data ! i) ''name'' \<in> {Undefined, Null, Str [], Num 0}
            \<or> get (res_data ! i) ''email'' \<in> {Undefined, Null, Str [], Num 0}]"
    unfolding errors_parseData falsy
    by (simp add: rowErrorMessage_def)
  show "length (data (parseCSV now text)) = length (Papa_parse text)"
    by (simp add: parseCSV_def data_parseData)
  show "length (Papa_parse text) = length [fs \<leftarrow> scan FieldStart text. \<not> isEmptyLine fs] - 1"
    by (simp add: Papa_parse_def split: list.splits)
  have one: "natToString (Suc 0) = ''1''" and zero: "natToString 0 = ''0''"
    by (simp_all add: natToString.simps [of "Suc 0"] natToString.simps [of 0] digitChar_def)
  show "data (parseCSV now bobText) =
       [[(''id'', Str (natToString (now 0) @ ''-0'')), (''name'', Str []),
         (''email'', Str ''bob@x.com''), (''age'', Num 0), (''role'', Str ''Viewer'')]]"
    unfolding parseCSV_def Papa_parse_bobText data_parseData
    by (simp add: parseRow_def spread_def get_def js_or_def zero)
  show "errors (parseCSV now bobText) = [''Row 1:missing name or email'']"
    unfolding parseCSV_def Papa_parse_bobText errors_parseData
    by (simp add: get_def rowErrorMessage_def one)
qed

section \<open>Decimal numerals\<close>

lemma digitChar_in: "d < 10 \<Longrightarrow> digitChar d \<in> set ''0123456789''"
  unfolding digitChar_def by (rule nth_mem) simp

lemma natToString_digits: "set (natToString n) \<subseteq> set ''0123456789''"
proof (induction n rule: natToString.induct)
  case (1 n)
  show ?case
  proof (cases "n < 10")
    case True
    with digitChar_in [of n] show ?thesis
      by (subst natToString.simps) simp
  next
    case False
    have "n mod 10 < 10" by simp
    from digitChar_in [OF this] 1 [OF False] False show ?thesis
      by (subst natToString.simps) simp
  qed
qed

lemma natToString_no_dash: "CHR ''-'' \<notin> set (natToString n)"
  using natToString_digits [of n] by auto

lemma digitChar_value: "d < 10 \<Longrightarrow> (of_char (digitChar d) :: nat) - 48 = d"
proof -
  assume "d < 10"
  then have "d \<in> set [0 ..< 10]"
    by simp
  also have "[0 ..< 10] = [0, 1, 2, 3, 4, 5, 6, 7, 8, 9 :: nat]"
    by (simp add: upt_rec)
  finally consider "d = 0" | "d = 1" | "d = 2" | "d = 3" | "d = 4" | "d = 5" | "d = 6" | "d = 7"
    | "d = 8" | "d = 9"
    by auto
  then show ?thesis
    by cases (simp_all add: digitChar_def)
qed

lemma digitsToNat_natToString: "digitsToNat (natToString n) = n"
proof (induction n rule: natToString.induct)
  case (1 n)
  show ?case
  proof (cases "n < 10")
    case True
    then show ?thesis
      by (subst natToString.simps) (simp add: digitsToNat_def digitChar_value)
  next
    case False
    have "n mod 10 < 10" by simp
    from 1 [OF False] False digitChar_value [OF this] show ?thesis
      by (subst natToString.simps) (simp add: digitsToNat_def)
  qed
qed

lemma natToString_inj: "natToString m = natToString n \<Longrightarrow> m = n"
  by (metis digitsToNat_natToString)

lemma split_at_separator:
  "a @ c # b = a' @ c # b' \<Longrightarrow> c \<notin> set a \<Longrightarrow> c \<notin> set a' \<Longrightarrow> a = a' \<and> b = b'"
proof (induction a arbitrary: a')
  case Nil
  then show ?case by (cases a') auto
next
  case (Cons x xs)
  then show ?case by (cases a') auto
qed

lemma synthesized_id_inj:
  "natToString t @ ''-'' @ natToString i = natToString t' @ ''-'' @ natToString j \<Longrightarrow> i = j"
proof -
  assume "natToString t @ ''-'' @ natToString i = natToString t' @ ''-'' @ natToString j"
  then have "natToString t @ CHR ''-'' # natToString i = natToString t' @ CHR ''-'' # natToString j"
    by simp
  from split_at_separator [OF this natToString_no_dash natToString_no_dash]
  show "i = j" by (simp add: natToString_inj)
qed

section \<open>Row ids\<close>

lemma set_setProp: "set (setProp k v r) \<subseteq> insert (k, v) (set r)"
  by (induction r) auto

lemma stringValued_setProp:
  assumes "stringValued r"
  shows "stringValued (setProp k (Str s) r)"
  unfolding stringValued_def
proof
  fix p
  assume "p \<in> set (setProp k (Str s) r)"
  with set_setProp [of k "Str s" r] have "p = (k, Str s) \<or> p \<in> set r"
    by blast
  then show "\<exists>s. snd p = Str s"
  proof
    assume "p = (k, Str s)"
    then show ?thesis by simp
  next
    assume "p \<in> set r"
    with assms show ?thesis by (simp add: stringValued_def)
  qed
qed

lemma fold_setProp_Str:
  "wf_obj acc \<Longrightarrow> stringValued acc \<Longrightarrow>
   wf_obj (fold (\<lambda>(k, v). setProp k (Str v)) kvs acc)
   \<and> stringValued (fold (\<lambda>(k, v). setProp k (Str v)) kvs acc)"
proof (induction kvs arbitrary: acc)
  case Nil
  then show ?case by simp
next
  case (Cons p kvs)
  obtain k v where p: "p = (k, v)" by (cases p)
  from Cons.prems have "wf_obj (setProp k (Str v) acc)" and "stringValued (setProp k (Str v) acc)"
    by (simp_all add: wf_setProp stringValued_setProp)
  from Cons.IH [OF this] p show ?case by simp
qed

lemma rowObject_wf: "wf_obj (rowObject header fs)" and rowObject_strings: "stringValued (rowObject header fs)"
  using fold_setProp_Str [of "[]" "zip header fs"]
  by (simp_all add: rowObject_def wf_obj_def stringValued_def)

lemma Papa_parse_rows:
  "r \<in> set (Papa_parse text) \<Longrightarrow> wf_obj r \<and> stringValued r"
  by (auto simp: Papa_parse_def rowObject_wf rowObject_strings split: list.splits)

lemma stringValued_get:
  assumes "stringValued r" and "k \<in> fst ` set r"
  shows "\<exists>s. get r k = Str s"
proof -
  from assms(2) have "map_of r k \<noteq> None"
    by (simp add: map_of_eq_None_iff)
  then obtain v where v: "map_of r k = Some v"
    by blast
  then have "(k, v) \<in> set r" by (rule map_of_SomeD)
  with assms(1) have "\<exists>s. snd (k, v) = Str s"
    unfolding stringValued_def by (rule bspec)
  with v show ?thesis
    by (simp add: get_def)
qed

lemma parseRow_id_string:
  assumes "wf_obj r" and "stringValued r"
  shows "\<exists>s. get (parseRow now i r) ''id'' = Str s"
proof (cases "''id'' \<in> fst ` set r")
  case True
  with assms stringValued_get [OF assms(2) True] show ?thesis
    by (simp add: get_parseRow_raw)
next
  case False
  with assms show ?thesis
    by (simp add: get_parseRow_default rowDefaults_def get_Cons)
qed

lemma parseCSV_id_string:
  assumes "r \<in> set (data (parseCSV now text))"
  shows "\<exists>s. get r ''id'' = Str s"
proof -
  from assms obtain i where i: "i < length (Papa_parse text)"
    and r: "r = parseRow now i (Papa_parse text ! i)"
    by (auto simp: parseCSV_def data_parseData)
  from i have "Papa_parse text ! i \<in> set (Papa_parse text)" by simp
  then have "wf_obj (Papa_parse text ! i)" and "stringValued (Papa_parse text ! i)"
    by (simp_all add: Papa_parse_rows)
  then show ?thesis
    unfolding r by (rule parseRow_id_string)
qed

lemma mapped_id_string:
  assumes "r \<in> set (mapped random users)"
  shows "\<exists>s. get r ''id'' = Str s"
proof -
  from assms obtain i where "r = mapUser random i (users ! i)"
    by (auto simp: mapped_def)
  then show ?thesis
    by (simp add: mapUser_def get_Cons)
qed

lemma rows_setRows: "rows (setRows st new) = new"
  by (simp add: setRows_def persistRows_simps)

lemma rows_toggleColumn: "rows (toggleColumn st k) = rows st"
  by (simp add: toggleColumn_def persistColumns_simps split: option.splits)

lemma rows_addColumn: "rows (addColumn st c) = rows st"
  by (simp add: addColumn_def persistColumns_simps)

lemma rows_setColumns: "rows (setColumns st cs) = rows st"
  by (simp add: setColumns_def persistColumns_simps)

lemma rowIds_updateRow: "rowIds (updateRow st payload) = rowIds st"
proof (cases "findIndex (\<lambda>r. get r ''id'' = get payload ''id'') (rows st)")
  case None
  then show ?thesis by (simp add: rowIds_def rows_updateRow)
next
  case (Some idx)
  from findIndex_Some [OF Some] have "idx < length (rows st)"
    and "get (rows st ! idx) ''id'' = get payload ''id''"
    by simp_all
  then have "(map (\<lambda>r. get r ''id'') (rows st))[idx := get payload ''id''] = map (\<lambda>r. get r ''id'') (rows st)"
    using list_update_id [of "map (\<lambda>r. get r ''id'') (rows st)" idx] by simp
  with Some show ?thesis
    by (simp add: rowIds_def rows_updateRow map_update)
qed

lemma rowIds_deleteRow: "rowIds (deleteRow st i) = filter (\<lambda>v. v \<noteq> Str i) (rowIds st)"
  by (simp add: rowIds_def rows_deleteRow filter_map o_def)

lemma reachable_id_string:
  "reachable st \<Longrightarrow> \<forall>r \<in> set (rows st). \<exists>s. get r ''id'' = Str s"
proof (induction rule: reachable.induct)
  case start
  show ?case by (simp add: initialState_def sampleData_def get_Cons)
next
  case (importCSV st now csv)
  show ?case by (simp add: rows_setRows parseCSV_id_string)
next
  case (seed st random users)
  show ?case by (simp add: rows_setRows mapped_id_string)
next
  case (update st payload)
  show ?case
  proof
    fix r
    assume "r \<in> set (rows (updateRow st payload))"
    then have "get r ''id'' \<in> set (rowIds (updateRow st payload))"
      by (simp add: rowIds_def)
    then have "get r ''id'' \<in> set (rowIds st)"
      by (simp only: rowIds_updateRow)
    then obtain r' where "r' \<in> set (rows st)" and "get r ''id'' = get r' ''id''"
      unfolding rowIds_def set_map by (rule imageE)
    with update.IH show "\<exists>s. get r ''id'' = Str s"
      by simp
  qed
next
  case (delete st i)
  then show ?case by (simp add: rows_deleteRow)
next
  case (toggle st k)
  then show ?case by (simp add: rows_toggleColumn)
next
  case (add st c)
  then show ?case by (simp add: rows_addColumn)
next
  case (reorder st cs)
  then show ?case by (simp add: rows_setColumns)
qed

lemma synthesized_ids_distinct:
  assumes "\<forall>r \<in> set res_data. wf_obj r \<and> ''id'' \<notin> fst ` set r"
  shows "distinct (map (\<lambda>r. get r ''id'') (data (parseData now res_data)))"
proof -
  let ?syn = "\<lambda>i. Str (natToString (now i) @ ''-'' @ natToString i)"
  have "get (parseRow now i (res_data ! i)) ''id'' = ?syn i" if "i < length res_data" for i
  proof -
    from that assms have "wf_obj (res_data ! i)" and "''id'' \<notin> fst ` set (res_data ! i)"
      by simp_all
    then show ?thesis
      by (simp add: get_parseRow_default rowDefaults_def get_Cons)
  qed
  then have "map (\<lambda>r. get r ''id'') (data (parseData now res_data)) = map ?syn [0 ..< length res_data]"
    by (simp add: data_parseData)
  moreover have "inj_on ?syn (set [0 ..< length res_data])"
  proof (rule inj_onI)
    fix i j
    assume "?syn i = ?syn j"
    then have "natToString (now i) @ ''-'' @ natToString i = natToString (now j) @ ''-'' @ natToString j"
      by (simp only: jsval.inject)
    then show "i = j" by (rule synthesized_id_inj)
  qed
  ultimately show ?thesis
    by (simp add: distinct_map)
qed

lemma Papa_parse_duplicateIdText:
  "Papa_parse duplicateIdText =
     [[(''id'', Str ''7''), (''name'', Str ''Ann''), (''email'', Str ''ann@x.com'')],
      [(''id'', Str ''7''), (''name'', Str ''Bob''), (''email'', Str ''bob@x.com'')]]"
  by (simp add: Papa_parse_def duplicateIdText_def LF_def CR_def quoteChar_def newRecord_def
      isEmptyLine_def rowObject_def)

text \<open>
  Claim C2, as stated, fails: importing a CSV text whose \<open>id\<close> column holds \<open>7\<close> in two
  rows leads to a reachable state in which two rows share the id \<open>7\<close>.
\<close>

theorem duplicate_ids_counterexample:
  "reachable (setRows initialState (data (parseCSV (\<lambda>i. 17) duplicateIdText)))
   \<and> rowIds (setRows initialState (data (parseCSV (\<lambda>i. 17) duplicateIdText))) = [Str ''7'', Str ''7'']
   \<and> \<not> distinct (rowIds (setRows initialState (data (parseCSV (\<lambda>i. 17) duplicateIdText))))"
proof -
  have ids: "rowIds (setRows initialState (data (parseCSV (\<lambda>i. 17) duplicateIdText))) = [Str ''7'', Str ''7'']"
    unfolding rowIds_def rows_setRows parseCSV_def Papa_parse_duplicateIdText data_parseData
    by (simp add: parseRow_def spread_def get_def js_or_def)
  have "reachable (setRows initialState (data (parseCSV (\<lambda>i. 17) duplicateIdText)))"
    by (intro reachable.importCSV reachable.start)
  with ids show ?thesis by simp
qed

text \<open>
  Claim C2, amended. In every reachable state every row has a defined \<open>id\<close>, a string.
  \<open>updateRow\<close> and \<open>deleteRow\<close> keep the ids pairwise distinct when they were; \<open>setRows\<close>
  stores its payload as it is, so the ids are pairwise distinct afterwards exactly when
  the payload's are; and the rows that \<open>parseCSV\<close> builds from raw rows without an \<open>id\<close> key
  (a CSV text with no \<open>id\<close> column) have pairwise distinct ids.
\<close>

theorem row_ids_invariant:
  "(reachable st \<longrightarrow> (\<forall>r \<in> set (rows st). \<exists>s. get r ''id'' = Str s))
   \<and> (distinct (rowIds st) \<longrightarrow>
        distinct (rowIds (updateRow st payload)) \<and> distinct (rowIds (deleteRow st i)))
   \<and> (distinct (rowIds (setRows st new)) \<longleftrightarrow> distinct (map (\<lambda>r. get r ''id'') new))
   \<and> ((\<forall>r \<in> set res_data. wf_obj r \<and> ''id'' \<notin> fst ` set r) \<longrightarrow>
        distinct (map (\<lambda>r. get r ''id'') (data (parseData now res_data))))"
proof (intro conjI impI)
  assume "reachable st"
  then show "\<forall>r \<in> set (rows st). \<exists>s. get r ''id'' = Str s"
    by (rule reachable_id_string)
next
  assume "distinct (rowIds st)"
  then show "distinct (rowIds (updateRow st payload))"
    by (simp only: rowIds_updateRow)
next
  assume "distinct (rowIds st)"
  then show "distinct (rowIds (deleteRow st i))"
    by (simp add: rowIds_deleteRow)
next
  show "distinct (rowIds (setRows st new)) \<longleftrightarrow> distinct (map (\<lambda>r. get r ''id'') new)"
    by (simp add: rowIds_def rows_setRows)
next
  assume "\<forall>r \<in> set res_data. wf_obj r \<and> ''id'' \<notin> fst ` set r"
  then show "distinct (map (\<lambda>r. get r ''id'') (data (parseData now res_data)))"
    by (rule synthesized_ids_distinct)
qed

theorem row_ids_invariant_witness:
  "reachable (deleteRow initialState ''2'')
   \<and> rowIds (deleteRow initialState ''2'') = [Str ''1'', Str ''3'']
   \<and> distinct (rowIds initialState)
   \<and> distinct (rowIds (updateRow initialState johnEdited))
   \<and> distinct (rowIds (deleteRow initialState ''2''))
   \<and> map (\<lambda>r. get r ''id'') (data (parseData (\<lambda>i. 17) noIdRows)) = [Str ''17-0'', Str ''17-1'']
   \<and> distinct (map (\<lambda>r. get r ''id'') (data (parseData (\<lambda>i. 17) noIdRows)))"
proof -
  have r: "reachable (deleteRow initialState ''2'')"
    by (intro reachable.delete reachable.start)
  have ids0: "rowIds initialState = [Str ''1'', Str ''2'', Str ''3'']"
    by (simp add: rowIds_def initialState_def sampleData_def get_def)
  have ids: "rowIds (deleteRow initialState ''2'') = [Str ''1'', Str ''3'']"
    by (simp add: rowIds_deleteRow ids0)
  have d0: "distinct (rowIds initialState)"
    by (simp add: ids0)
  have raw: "\<forall>r \<in> set noIdRows. wf_obj r \<and> ''id'' \<notin> fst ` set r"
    by (simp add: noIdRows_def wf_obj_def)
  have syn: "map (\<lambda>r. get r ''id'') (data (parseData (\<lambda>i. 17) noIdRows)) = [Str ''17-0'', Str ''17-1'']"
    by (simp add: data_parseData noIdRows_def parseRow_def spread_def get_def js_or_def
        natToString.simps digitChar_def upt_rec)
  note inv = row_ids_invariant [of "initialState" johnEdited "''2''" "[]" noIdRows "\<lambda>i. 17"]
  from inv [THEN conjunct2, THEN conjunct1, THEN mp, OF d0]
  have upd: "distinct (rowIds (updateRow initialState johnEdited))"
    and del: "distinct (rowIds (deleteRow initialState ''2''))"
    by (rule conjunct1, rule conjunct2)
  from inv [THEN conjunct2, THEN conjunct2, THEN conjunct2, THEN mp, OF raw]
  have "distinct (map (\<lambda>r. get r ''id'') (data (parseData (\<lambda>i. 17) noIdRows)))" .
  with r ids d0 upd del syn show ?thesis
    by (intro conjI)
qed

section \<open>Reading back what was written\<close>

lemma special_distinct:
  "quoteChar \<noteq> CHR '',''" "quoteChar \<noteq> CR" "quoteChar \<noteq> LF" "CR \<noteq> LF" "CR \<noteq> CHR '',''"
  "LF \<noteq> CHR '',''"
  by (simp_all add: quoteChar_def CR_def LF_def)




declare scan.simps [simp del]



lemma scan_LF: "m \<noteq> InQuotes \<Longrightarrow> scan m (LF # cs) = newRecord (scan FieldStart cs)"
  by (subst scan.simps) (simp add: special_distinct special_distinct [symmetric])



















lemma keys_fold_setProp:
  "map fst acc = map fst acc' \<Longrightarrow>
   map fst (fold (\<lambda>item out. setProp item (g item) out) ks acc)
     = map fst (fold (\<lambda>item out. setProp item (g' item) out) ks acc')"
proof (induction ks arbitrary: acc acc')
  case Nil
  then show ?case by simp
next
  case (Cons k ks)
  from Cons.prems have "map fst (setProp k (g k) acc) = map fst (setProp k (g' k) acc')"
    by (simp add: keys_setProp)
  from Cons.IH [OF this] show ?case by simp
qed





lemma keys_projectRow: "map fst (projectRow ks r) = map fst (projectRow ks r')"
  unfolding projectRow_def by (rule keys_fold_setProp) simp











end
